theory Spec2Isabelle
  imports Complex_Main "HOL-Library.Word"
begin

unbundle bit_operations_syntax

section \<open>Bytes, strings and errors\<close>

text \<open>
  A Go string is a sequence of bytes; it is modelled as a \<open>string\<close> (a list of 8-bit
  characters). \<open>byte c\<close> is the numeric value of the byte \<open>c\<close>.
\<close>

definition byte :: "char \<Rightarrow> nat" where
  "byte c = of_char c"

definition is_digit :: "char \<Rightarrow> bool" where
  "is_digit c = (byte c \<ge> 48 \<and> byte c \<le> 57)"

text \<open>The Go expression \<open>c - '0'\<close> on bytes: subtraction wraps modulo 256.\<close>

definition byte_sub0 :: "char \<Rightarrow> nat" where
  "byte_sub0 c = (byte c + 256 - 48) mod 256"

text \<open>
  Errors are values. \<open>Err k\<close> is one of the package's sentinel errors (or one of the
  sentinels of the Go library), \<open>Wrap msg e\<close> is \<open>fmt.Errorf\<close> with the verb \<open>%w\<close> applied
  to \<open>e\<close>; \<open>errors_Is\<close> walks the chain as \<open>errors.Is\<close> does.
\<close>

datatype err_kind =
    ErrInvalidTLEFormat
  | ErrInvalidChecksum
  | ErrInvalidLineNumber
  | ErrLineTooShort
  | ErrNoradIDMismatch
  | ErrInvalidAlpha5
  | ErrSyntax
  | ErrRange
  | ErrEpoch
  | ErrInvalidTLEForPropagation
  | ErrPropagationFailed
  | ErrNilTLE
  | ErrInvalidStep
  | ErrNilTLEForTrack
  | ErrInvalidRange
  | ErrCelestrakNotFound
  | ErrCelestrakRateLimit
  | ErrCelestrakServerError
  | ErrUnexpectedStatus
  | ErrTransport
  | ErrContext
  | ErrReadFile
  | ErrLoadGroupFailed
  | ErrNil

datatype error = Err err_kind | Wrap string error

primrec errors_Is :: "error \<Rightarrow> err_kind \<Rightarrow> bool" where
  "errors_Is (Err k) target = (k = target)"
| "errors_Is (Wrap msg e) target = errors_Is e target"

section \<open>TLE parser: checksum\<close>

definition TLELineLength :: nat where
  "TLELineLength = 69"

text \<open>
  \<open>calculateChecksum\<close>: the loop over the bytes of the line, with the running sum as
  accumulator, then \<open>sum % 10\<close> (the sum is never negative, so Go's truncating
  remainder is \<open>mod\<close>).
\<close>

fun checksum_loop :: "string \<Rightarrow> int \<Rightarrow> int" where
  "checksum_loop [] acc = acc"
| "checksum_loop (c # cs) acc =
     checksum_loop cs
       (if byte c \<ge> 48 \<and> byte c \<le> 57 then acc + int (byte_sub0 c)
        else if c = CHR ''-'' then acc + 1
        else acc)"

definition calculateChecksum :: "string \<Rightarrow> int" where
  "calculateChecksum line = checksum_loop line 0 mod 10"

definition validateChecksum :: "string \<Rightarrow> bool" where
  "validateChecksum line =
     (if length line < TLELineLength then False
      else
        let checksumIdx = TLELineLength - 1;
            calculated = calculateChecksum (take checksumIdx line);
            expected = int (byte_sub0 (line ! checksumIdx))
        in calculated = expected)"

text \<open>The checksum rule in the words of the specification.\<close>

definition digit_value :: "char \<Rightarrow> int" where
  "digit_value c = int (byte c) - 48"

definition spec_contribution :: "char \<Rightarrow> int" where
  "spec_contribution c =
     (if is_digit c then digit_value c else if c = CHR ''-'' then 1 else 0)"

definition modulo10_sum :: "string \<Rightarrow> int" where
  "modulo10_sum s = (\<Sum>c\<leftarrow>s. spec_contribution c) mod 10"

section \<open>TLE parser: catalog numbers\<close>

text \<open>
  \<open>strconv.Atoi\<close> (Go library, base 10, 64-bit \<open>int\<close>): one optional sign, then at
  least one digit and nothing but digits; a value outside the 64-bit range is a range
  error.
\<close>

fun atoi_digits :: "string \<Rightarrow> int \<Rightarrow> int" where
  "atoi_digits [] acc = acc"
| "atoi_digits (c # cs) acc = atoi_digits cs (acc * 10 + int (byte_sub0 c))"

definition Atoi :: "string \<Rightarrow> error + int" where
  "Atoi s =
     (let neg = (s \<noteq> [] \<and> hd s = CHR ''-'');
          body = (if s \<noteq> [] \<and> (hd s = CHR ''-'' \<or> hd s = CHR ''+'') then tl s else s)
      in if body = [] \<or> \<not> list_all is_digit body then Inl (Wrap ''strconv.Atoi'' (Err ErrSyntax))
         else
           let n = atoi_digits body 0;
               v = (if neg then - n else n)
           in if v < - (2 ^ 63) \<or> v > 2 ^ 63 - 1 then Inl (Wrap ''strconv.Atoi'' (Err ErrRange))
              else Inr v)"

definition alpha5Map :: "char \<Rightarrow> int option" where
  "alpha5Map = map_of
     [(CHR ''A'', 10), (CHR ''B'', 11), (CHR ''C'', 12), (CHR ''D'', 13),
      (CHR ''E'', 14), (CHR ''F'', 15), (CHR ''G'', 16), (CHR ''H'', 17),
      (CHR ''J'', 18), (CHR ''K'', 19), (CHR ''L'', 20), (CHR ''M'', 21), (CHR ''N'', 22),
      (CHR ''P'', 23), (CHR ''Q'', 24), (CHR ''R'', 25), (CHR ''S'', 26), (CHR ''T'', 27),
      (CHR ''U'', 28), (CHR ''V'', 29), (CHR ''W'', 30),
      (CHR ''X'', 31), (CHR ''Y'', 32), (CHR ''Z'', 33)]"

definition parseNoradID :: "string \<Rightarrow> error + int" where
  "parseNoradID s =
     (if length s = 0 then Inl (Wrap ''empty string'' (Err ErrInvalidAlpha5))
      else
        let firstChar = s ! 0 in
        if byte firstChar \<ge> 65 \<and> byte firstChar \<le> 90 then
          (case alpha5Map firstChar of
             None \<Rightarrow> Inl (Wrap ''invalid letter (I and O not allowed)'' (Err ErrInvalidAlpha5))
           | Some prefix \<Rightarrow>
               if length s < 5 then Inl (Wrap ''too short'' (Err ErrInvalidAlpha5))
               else
                 (case Atoi (take 4 (drop 1 s)) of
                    Inl e \<Rightarrow> Inl (Wrap ''rest'' (Err ErrInvalidAlpha5))
                  | Inr rest \<Rightarrow> Inr (prefix * 10000 + rest)))
        else
          (case Atoi s of
             Inl e \<Rightarrow> Inl (Wrap ''invalid NORAD ID'' e)
           | Inr ident \<Rightarrow> Inr ident))"

text \<open>The catalog-number rule in the words of the specification.\<close>

definition decimal_value :: "string \<Rightarrow> int" where
  "decimal_value s = (\<Sum>i<length s. digit_value (s ! i) * 10 ^ (length s - 1 - i))"

definition alpha5_letter :: "char \<Rightarrow> bool" where
  "alpha5_letter c =
     (byte c \<ge> 65 \<and> byte c \<le> 90 \<and> c \<noteq> CHR ''I'' \<and> c \<noteq> CHR ''O'')"

definition alpha5_value :: "char \<Rightarrow> int" where
  "alpha5_value c =
     int (byte c) - 65 + 10
       - (if byte c > 73 then 1 else 0) - (if byte c > 79 then 1 else 0)"

section \<open>Floating-point values and instants\<close>

text \<open>
  A Go \<open>float64\<close> is either a finite number, one of the two infinities, or NaN. Finite
  values are carried as reals: rounding, overflow of finite results and the sign of zero
  are not modelled; the special values and the operations that produce them are.
\<close>

datatype float64 = Fin real | PInf | NInf | NaN

text \<open>
  Arithmetic and comparisons follow IEEE 754 on the special values: NaN is contagious,
  \<open>\<infinity> - \<infinity>\<close>, \<open>0 * \<infinity>\<close>, \<open>0 / 0\<close> and \<open>\<infinity> / \<infinity>\<close> are NaN, a non-zero finite number
  divided by zero is an infinity (zero is taken as \<open>+0\<close>), and every comparison with NaN
  is false.
\<close>

instantiation float64 :: "{plus, minus, uminus, times, inverse, abs, ord}"
begin

fun uminus_float64 :: "float64 \<Rightarrow> float64" where
  "uminus_float64 (Fin a) = Fin (- a)"
| "uminus_float64 PInf = NInf"
| "uminus_float64 NInf = PInf"
| "uminus_float64 NaN = NaN"

fun plus_float64 :: "float64 \<Rightarrow> float64 \<Rightarrow> float64" where
  "plus_float64 (Fin a) (Fin b) = Fin (a + b)"
| "plus_float64 NaN y = NaN"
| "plus_float64 x NaN = NaN"
| "plus_float64 PInf NInf = NaN"
| "plus_float64 NInf PInf = NaN"
| "plus_float64 PInf y = PInf"
| "plus_float64 x PInf = PInf"
| "plus_float64 NInf y = NInf"
| "plus_float64 x NInf = NInf"

definition minus_float64 :: "float64 \<Rightarrow> float64 \<Rightarrow> float64" where
  "minus_float64 x y = x + (- y)"

fun times_float64 :: "float64 \<Rightarrow> float64 \<Rightarrow> float64" where
  "times_float64 (Fin a) (Fin b) = Fin (a * b)"
| "times_float64 NaN y = NaN"
| "times_float64 x NaN = NaN"
| "times_float64 (Fin a) PInf = (if a = 0 then NaN else if a > 0 then PInf else NInf)"
| "times_float64 (Fin a) NInf = (if a = 0 then NaN else if a > 0 then NInf else PInf)"
| "times_float64 PInf (Fin b) = (if b = 0 then NaN else if b > 0 then PInf else NInf)"
| "times_float64 NInf (Fin b) = (if b = 0 then NaN else if b > 0 then NInf else PInf)"
| "times_float64 PInf PInf = PInf"
| "times_float64 PInf NInf = NInf"
| "times_float64 NInf PInf = NInf"
| "times_float64 NInf NInf = PInf"

fun divide_float64 :: "float64 \<Rightarrow> float64 \<Rightarrow> float64" where
  "divide_float64 (Fin a) (Fin b) =
     (if b = 0 then (if a = 0 then NaN else if a > 0 then PInf else NInf) else Fin (a / b))"
| "divide_float64 NaN y = NaN"
| "divide_float64 x NaN = NaN"
| "divide_float64 (Fin a) PInf = Fin 0"
| "divide_float64 (Fin a) NInf = Fin 0"
| "divide_float64 PInf (Fin b) = (if b \<ge> 0 then PInf else NInf)"
| "divide_float64 NInf (Fin b) = (if b \<ge> 0 then NInf else PInf)"
| "divide_float64 PInf PInf = NaN"
| "divide_float64 PInf NInf = NaN"
| "divide_float64 NInf PInf = NaN"
| "divide_float64 NInf NInf = NaN"

definition inverse_float64 :: "float64 \<Rightarrow> float64" where
  "inverse_float64 x = divide (Fin 1) x"

fun abs_float64 :: "float64 \<Rightarrow> float64" where
  "abs_float64 (Fin a) = Fin \<bar>a\<bar>"
| "abs_float64 PInf = PInf"
| "abs_float64 NInf = PInf"
| "abs_float64 NaN = NaN"

fun less_float64 :: "float64 \<Rightarrow> float64 \<Rightarrow> bool" where
  "less_float64 (Fin a) (Fin b) = (a < b)"
| "less_float64 NaN y = False"
| "less_float64 x NaN = False"
| "less_float64 x NInf = False"
| "less_float64 PInf y = False"
| "less_float64 NInf y = True"
| "less_float64 x PInf = True"

fun less_eq_float64 :: "float64 \<Rightarrow> float64 \<Rightarrow> bool" where
  "less_eq_float64 (Fin a) (Fin b) = (a \<le> b)"
| "less_eq_float64 NaN y = False"
| "less_eq_float64 x NaN = False"
| "less_eq_float64 NInf y = True"
| "less_eq_float64 x PInf = True"
| "less_eq_float64 x NInf = False"
| "less_eq_float64 PInf y = False"

instance ..

end

text \<open>The Go operators \<open>==\<close> and \<open>!=\<close> on floats: NaN equals nothing, itself included.\<close>

definition feq :: "float64 \<Rightarrow> float64 \<Rightarrow> bool" where
  "feq x y = (x \<noteq> NaN \<and> y \<noteq> NaN \<and> x = y)"

definition fneq :: "float64 \<Rightarrow> float64 \<Rightarrow> bool" where
  "fneq x y = (\<not> feq x y)"

fun is_finite :: "float64 \<Rightarrow> bool" where
  "is_finite (Fin a) = True"
| "is_finite _ = False"

text \<open>The functions of Go's \<open>math\<close> package that the code calls, with their special cases.\<close>

fun math_Sqrt :: "float64 \<Rightarrow> float64" where
  "math_Sqrt (Fin a) = (if a < 0 then NaN else Fin (sqrt a))"
| "math_Sqrt PInf = PInf"
| "math_Sqrt NInf = NaN"
| "math_Sqrt NaN = NaN"

fun math_Sin :: "float64 \<Rightarrow> float64" where
  "math_Sin (Fin a) = Fin (sin a)"
| "math_Sin _ = NaN"

fun math_Cos :: "float64 \<Rightarrow> float64" where
  "math_Cos (Fin a) = Fin (cos a)"
| "math_Cos _ = NaN"

fun math_Asin :: "float64 \<Rightarrow> float64" where
  "math_Asin (Fin a) = (if - 1 \<le> a \<and> a \<le> 1 then Fin (arcsin a) else NaN)"
| "math_Asin _ = NaN"

definition atan2_real :: "real \<Rightarrow> real \<Rightarrow> real" where
  "atan2_real y x =
     (if x > 0 then arctan (y / x)
      else if x < 0 then (if y \<ge> 0 then arctan (y / x) + pi else arctan (y / x) - pi)
      else if y > 0 then pi / 2
      else if y < 0 then - (pi / 2)
      else 0)"

fun math_Atan2 :: "float64 \<Rightarrow> float64 \<Rightarrow> float64" where
  "math_Atan2 (Fin y) (Fin x) = Fin (atan2_real y x)"
| "math_Atan2 NaN x = NaN"
| "math_Atan2 y NaN = NaN"
| "math_Atan2 (Fin y) PInf = Fin 0"
| "math_Atan2 (Fin y) NInf = (if y \<ge> 0 then Fin pi else Fin (- pi))"
| "math_Atan2 PInf (Fin x) = Fin (pi / 2)"
| "math_Atan2 NInf (Fin x) = Fin (- (pi / 2))"
| "math_Atan2 PInf PInf = Fin (pi / 4)"
| "math_Atan2 NInf PInf = Fin (- (pi / 4))"
| "math_Atan2 PInf NInf = Fin (3 * pi / 4)"
| "math_Atan2 NInf NInf = Fin (- (3 * pi / 4))"

fun math_Max :: "float64 \<Rightarrow> float64 \<Rightarrow> float64" where
  "math_Max (Fin a) (Fin b) = Fin (max a b)"
| "math_Max PInf y = PInf"
| "math_Max x PInf = PInf"
| "math_Max NaN y = NaN"
| "math_Max x NaN = NaN"
| "math_Max NInf y = y"
| "math_Max x NInf = x"

fun math_Min :: "float64 \<Rightarrow> float64 \<Rightarrow> float64" where
  "math_Min (Fin a) (Fin b) = Fin (min a b)"
| "math_Min NInf y = NInf"
| "math_Min x NInf = NInf"
| "math_Min NaN y = NaN"
| "math_Min x NaN = NaN"
| "math_Min PInf y = y"
| "math_Min x PInf = x"

text \<open>
  Conversions. \<open>float64(n)\<close> of a 64-bit integer is exact in this model. \<open>int64(f)\<close>
  truncates towards zero; for NaN, the infinities and values out of range the Go
  specification leaves the result to the implementation, and the model takes the value
  that amd64 produces, \<open>-2^63\<close>. \<open>wrap64\<close> is 64-bit two's-complement wrap-around.
\<close>

definition float64_of_int :: "int \<Rightarrow> float64" where
  "float64_of_int n = Fin (of_int n)"

definition trunc_real :: "real \<Rightarrow> int" where
  "trunc_real r = (if r \<ge> 0 then \<lfloor>r\<rfloor> else \<lceil>r\<rceil>)"

fun int64_of_float :: "float64 \<Rightarrow> int" where
  "int64_of_float (Fin r) =
     (if - (2 ^ 63) \<le> trunc_real r \<and> trunc_real r < 2 ^ 63 then trunc_real r else - (2 ^ 63))"
| "int64_of_float _ = - (2 ^ 63)"

definition wrap64 :: "int \<Rightarrow> int" where
  "wrap64 n = sint (word_of_int n :: 64 word)"

text \<open>An instant (\<open>time.Time\<close>) is a count of nanoseconds since the Unix epoch.\<close>

type_synonym time = int

text \<open>\<open>t.UnixMilli()\<close>: whole milliseconds since the epoch, rounded down.\<close>

definition UnixMilli :: "time \<Rightarrow> int" where
  "UnixMilli t = t div 1000000"

section \<open>TLE records and the TLE store\<close>

record TLE =
  Name :: string
  NoradID :: int
  Classification :: string
  IntlDesignator :: string
  Epoch :: time
  MeanMotionDot :: float64
  MeanMotionDot2 :: float64
  Bstar :: float64
  EphemerisType :: int
  ElementSetNo :: int
  Inclination :: float64
  RAAN :: float64
  Eccentricity :: float64
  ArgOfPerigee :: float64
  MeanAnomaly :: float64
  MeanMotion :: float64
  RevNumber :: int
  Line1 :: string
  Line2 :: string

text \<open>
  \<open>strings.ToLower\<close> (Go library) on the bytes of ASCII text: the letters A-Z are
  lowered, every other byte is kept.
\<close>

definition lower_char :: "char \<Rightarrow> char" where
  "lower_char c = (if byte c \<ge> 65 \<and> byte c \<le> 90 then char_of (byte c + 32) else c)"

definition ToLower :: "string \<Rightarrow> string" where
  "ToLower s = map lower_char s"

text \<open>
  The in-memory state of \<open>TLEStore\<close>: the catalog and the two indexes. A missing key of a
  Go map reads as the nil slice.
\<close>

record TLEStore =
  catalog :: "int \<rightharpoonup> TLE"
  byGroup :: "string \<rightharpoonup> int list"
  byName :: "string \<rightharpoonup> int list"

definition NewTLEStore :: TLEStore where
  "NewTLEStore = \<lparr>catalog = Map.empty, byGroup = Map.empty, byName = Map.empty\<rparr>"

definition index_get :: "(string \<rightharpoonup> int list) \<Rightarrow> string \<Rightarrow> int list" where
  "index_get index key = (case index key of None \<Rightarrow> [] | Some ids \<Rightarrow> ids)"

definition addToIndex :: "(string \<rightharpoonup> int list) \<Rightarrow> string \<Rightarrow> int \<Rightarrow> (string \<rightharpoonup> int list)" where
  "addToIndex index key ident =
     (let ids = index_get index key
      in if ident \<in> set ids then index else index(key \<mapsto> ids @ [ident]))"

definition addInternal :: "TLEStore \<Rightarrow> TLE option \<Rightarrow> string \<Rightarrow> TLEStore" where
  "addInternal s tle grp =
     (case tle of
        None \<Rightarrow> s
      | Some t \<Rightarrow>
          let s1 = s\<lparr>catalog := (catalog s)(NoradID t \<mapsto> t)\<rparr>;
              s2 = (if grp \<noteq> [] then
                      s1\<lparr>byGroup := addToIndex (byGroup s1) (ToLower grp) (NoradID t)\<rparr>
                    else s1);
              s3 = (if Name t \<noteq> [] then
                      s2\<lparr>byName := addToIndex (byName s2) (ToLower (Name t)) (NoradID t)\<rparr>
                    else s2)
          in s3)"

definition Add :: "TLEStore \<Rightarrow> TLE option \<Rightarrow> TLEStore" where
  "Add s tle = addInternal s tle []"

definition AddWithGroup :: "TLEStore \<Rightarrow> TLE option \<Rightarrow> string \<Rightarrow> TLEStore" where
  "AddWithGroup s tle grp = addInternal s tle grp"

text \<open>No identifier occurs twice under a key of either index.\<close>

definition index_no_duplicates :: "TLEStore \<Rightarrow> bool" where
  "index_no_duplicates s =
     ((\<forall>k ids. byGroup s k = Some ids \<longrightarrow> distinct ids) \<and>
      (\<forall>k ids. byName s k = Some ids \<longrightarrow> distinct ids))"

text \<open>The ISS record of the repository's tests, as a value of the record type.\<close>

definition iss_record :: TLE where
  "iss_record =
     \<lparr>Name = ''ISS (ZARYA)'', NoradID = 25544, Classification = ''U'',
      IntlDesignator = ''98067A'', Epoch = 1704110400000000000,
      MeanMotionDot = Fin 0.00016717, MeanMotionDot2 = Fin 0, Bstar = Fin 0.00010270,
      EphemerisType = 0, ElementSetNo = 999,
      Inclination = Fin 51.64, RAAN = Fin 247.4627, Eccentricity = Fin 0.0006703,
      ArgOfPerigee = Fin 130.536, MeanAnomaly = Fin 325.0288, MeanMotion = Fin 15.49815571,
      RevNumber = 42340,
      Line1 = ''1 25544U 98067A   24001.50000000  .00016717  00000-0  10270-3 0  9997'',
      Line2 = ''2 25544  51.6400 247.4627 0006703 130.5360 325.0288 15.49815571423407''\<rparr>"

section \<open>SGP4 propagator\<close>

text \<open>
  The SGP4 kernel is a third-party library. It enters the model as two parameters:
  \<open>TLEToSat\<close> builds the kernel's satellite from the two lines and a gravity constant, and
  \<open>sgp4\<close> gives position and velocity (three components each) of a satellite at the
  calendar second of an instant. \<open>whole_second\<close> is that second: \<open>Propagate\<close> passes the
  year, month, day, hour, minute and second of the instant and drops the rest.
\<close>

datatype GravityModel = GravityWGS72 | GravityWGS84 | GravityOther int

datatype Gravity = KernelWGS72 | KernelWGS84

type_synonym vector3 = "float64 \<times> float64 \<times> float64"

record 'sat kernel =
  TLEToSat :: "string \<Rightarrow> string \<Rightarrow> Gravity \<Rightarrow> 'sat"
  sgp4 :: "'sat \<Rightarrow> int \<Rightarrow> vector3 \<times> vector3"

definition whole_second :: "time \<Rightarrow> int" where
  "whole_second t = t div 1000000000"

record ECIPosition =
  X :: float64
  Y :: float64
  Z :: float64
  Vx :: float64
  Vy :: float64
  Vz :: float64
  Time :: time

record 'sat Propagator =
  tle :: TLE
  satellite :: 'sat
  gravity :: GravityModel

definition NewPropagatorWithGravity ::
  "'sat kernel \<Rightarrow> TLE option \<Rightarrow> GravityModel \<Rightarrow> error + 'sat Propagator" where
  "NewPropagatorWithGravity k tlePtr grav =
     (case tlePtr of
        None \<Rightarrow> Inl (Err ErrNilTLE)
      | Some t \<Rightarrow>
          if Line1 t = [] \<or> Line2 t = [] then
            Inl (Wrap ''missing Line1 or Line2'' (Err ErrInvalidTLEForPropagation))
          else
            let gravConst = (case grav of
                               GravityWGS72 \<Rightarrow> KernelWGS72
                             | GravityWGS84 \<Rightarrow> KernelWGS84
                             | GravityOther n \<Rightarrow> KernelWGS84);
                sat = TLEToSat k (Line1 t) (Line2 t) gravConst
            in Inr \<lparr>tle = t, satellite = sat, gravity = grav\<rparr>)"

definition NewPropagator :: "'sat kernel \<Rightarrow> TLE option \<Rightarrow> error + 'sat Propagator" where
  "NewPropagator k tlePtr = NewPropagatorWithGravity k tlePtr GravityWGS84"

text \<open>\<open>isNaN\<close> is the comparison \<open>f != f\<close>.\<close>

definition isNaN :: "float64 \<Rightarrow> bool" where
  "isNaN f = fneq f f"

definition Propagate ::
  "'sat kernel \<Rightarrow> 'sat Propagator option \<Rightarrow> time \<Rightarrow> error + ECIPosition" where
  "Propagate k p t =
     (case p of
        None \<Rightarrow> Inl (Err ErrNilTLE)
      | Some pr \<Rightarrow>
          (case sgp4 k (satellite pr) (whole_second t) of
             ((px, py, pz), (vx, vy, vz)) \<Rightarrow>
               if isNaN px \<or> isNaN py \<or> isNaN pz then
                 Inl (Wrap ''position contains NaN'' (Err ErrPropagationFailed))
               else
                 Inr \<lparr>X = px, Y = py, Z = pz, Vx = vx, Vy = vy, Vz = vz, Time = t\<rparr>))"

text \<open>
  Kernels for examples: one answers a fixed finite state; one answers a finite position
  with a NaN velocity; one answers an infinite position; one (over satellites that are
  numbers of seconds) answers NaN from its satellite's second on.
\<close>

definition steady_kernel :: "unit kernel" where
  "steady_kernel =
     \<lparr>TLEToSat = (\<lambda>l1 l2 g. ()),
      sgp4 = (\<lambda>s t. ((Fin 6800, Fin 0, Fin 0), (Fin 0, Fin 7.5, Fin 0)))\<rparr>"

definition nan_velocity_kernel :: "unit kernel" where
  "nan_velocity_kernel =
     \<lparr>TLEToSat = (\<lambda>l1 l2 g. ()),
      sgp4 = (\<lambda>s t. ((Fin 6800, Fin 0, Fin 0), (NaN, NaN, NaN)))\<rparr>"

definition inf_position_kernel :: "unit kernel" where
  "inf_position_kernel =
     \<lparr>TLEToSat = (\<lambda>l1 l2 g. ()),
      sgp4 = (\<lambda>s t. ((PInf, Fin 0, Fin 0), (Fin 0, Fin 7.5, Fin 0)))\<rparr>"

definition decaying_kernel :: "int \<Rightarrow> unit kernel" where
  "decaying_kernel limit =
     \<lparr>TLEToSat = (\<lambda>l1 l2 g. ()),
      sgp4 = (\<lambda>s t. if t < limit then ((Fin 6800, Fin 0, Fin 0), (Fin 0, Fin 7.5, Fin 0))
                     else ((NaN, NaN, NaN), (NaN, NaN, NaN)))\<rparr>"

definition unit_propagator :: "unit Propagator" where
  "unit_propagator = \<lparr>tle = iss_record, satellite = (), gravity = GravityWGS84\<rparr>"

section \<open>Coordinate transforms\<close>

definition WGS84A :: real where
  "WGS84A = 6378.137"

definition WGS84F :: real where
  "WGS84F = 1 / 298.257223563"

definition WGS84E2 :: real where
  "WGS84E2 = 2 * WGS84F - WGS84F * WGS84F"

definition Deg2Rad :: real where
  "Deg2Rad = pi / 180"

definition Rad2Deg :: real where
  "Rad2Deg = 180 / pi"

text \<open>The zero value of \<open>time.Time\<close>: 1 January of year 1, 00:00 UTC.\<close>

definition zero_time :: time where
  "zero_time = - 62135596800 * 1000000000"

record ECEFPosition =
  X :: float64
  Y :: float64
  Z :: float64
  Time :: time

record Observer =
  Lat :: float64
  Lon :: float64
  Alt :: float64

record LLA =
  Lat :: float64
  Lon :: float64
  Alt :: float64

record AER =
  Az :: float64
  El :: float64
  Range :: float64

text \<open>
  \<open>GMST\<close> delegates to the kernel library (\<open>GSTimeFromDate\<close>): the sidereal angle is a
  parameter \<open>gmst\<close> of the calendar second of the instant.
\<close>

definition ECIToECEF :: "(int \<Rightarrow> float64) \<Rightarrow> ECIPosition option \<Rightarrow> ECEFPosition option" where
  "ECIToECEF gmst eci =
     (case eci of
        None \<Rightarrow> None
      | Some e \<Rightarrow>
          let g = gmst (whole_second (ECIPosition.Time e));
              cosGMST = math_Cos g;
              sinGMST = math_Sin g
          in Some \<lparr>X = ECIPosition.X e * cosGMST + ECIPosition.Y e * sinGMST,
                   Y = - ECIPosition.X e * sinGMST + ECIPosition.Y e * cosGMST,
                   Z = ECIPosition.Z e,
                   Time = ECIPosition.Time e\<rparr>)"

definition radius_of_curvature :: "float64 \<Rightarrow> float64" where
  "radius_of_curvature sinLat =
     Fin WGS84A / math_Sqrt (Fin 1 - Fin WGS84E2 * sinLat * sinLat)"

definition LLAToECEF :: "LLA option \<Rightarrow> ECEFPosition option" where
  "LLAToECEF lla =
     (case lla of
        None \<Rightarrow> None
      | Some l \<Rightarrow>
          let sinLat = math_Sin (LLA.Lat l);
              cosLat = math_Cos (LLA.Lat l);
              sinLon = math_Sin (LLA.Lon l);
              cosLon = math_Cos (LLA.Lon l);
              radiusN = radius_of_curvature sinLat
          in Some \<lparr>X = (radiusN + LLA.Alt l) * cosLat * cosLon,
                   Y = (radiusN + LLA.Alt l) * cosLat * sinLon,
                   Z = (radiusN * Fin (1 - WGS84E2) + LLA.Alt l) * sinLat,
                   Time = zero_time\<rparr>)"

text \<open>
  The loop of \<open>ECEFToLLA\<close>: at most \<open>n\<close> more rounds of the Bowring iteration, left early
  when the latitude moves by less than the tolerance.
\<close>

fun bowring :: "nat \<Rightarrow> float64 \<Rightarrow> float64 \<Rightarrow> float64 \<Rightarrow> float64" where
  "bowring 0 z p lat = lat"
| "bowring (Suc n) z p lat =
     (let sinLat = math_Sin lat;
          radiusN = radius_of_curvature sinLat;
          latNew = math_Atan2 (z + Fin WGS84E2 * radiusN * sinLat) p
      in if \<bar>latNew - lat\<bar> < Fin (1 / 10 ^ 12) then latNew else bowring n z p latNew)"

definition ECEFToLLA :: "ECEFPosition option \<Rightarrow> LLA option" where
  "ECEFToLLA ecef =
     (case ecef of
        None \<Rightarrow> None
      | Some e \<Rightarrow>
          let x = X e; y = Y e; z = Z e;
              lon = math_Atan2 y x;
              p = math_Sqrt (x * x + y * y);
              lat0 = math_Atan2 z (p * Fin (1 - WGS84E2));
              lat = bowring 10 z p lat0;
              sinLat = math_Sin lat;
              cosLat = math_Cos lat;
              radiusN = radius_of_curvature sinLat;
              alt = (if \<bar>cosLat\<bar> > Fin (1 / 10 ^ 10) then p / cosLat - radiusN
                     else \<bar>z\<bar> / \<bar>sinLat\<bar> - radiusN * Fin (1 - WGS84E2))
          in Some \<lparr>Lat = lat, Lon = lon, Alt = alt\<rparr>)"

definition ObserverToECEF :: "Observer option \<Rightarrow> ECEFPosition option" where
  "ObserverToECEF obs =
     (case obs of
        None \<Rightarrow> None
      | Some ob \<Rightarrow>
          LLAToECEF (Some \<lparr>Lat = Observer.Lat ob * Fin Deg2Rad, Lon = Observer.Lon ob * Fin Deg2Rad,
                      Alt = Observer.Alt ob\<rparr>))"

definition ECEFToAER ::
  "ECEFPosition option \<Rightarrow> ECEFPosition option \<Rightarrow> LLA option \<Rightarrow> AER option" where
  "ECEFToAER satECEF obsECEF obsLLA =
     (case (satECEF, obsECEF, obsLLA) of
        (Some sat, Some obs, Some lla) \<Rightarrow>
          let dx = X sat - X obs;
              dy = Y sat - Y obs;
              dz = Z sat - Z obs;
              rng = math_Sqrt (dx * dx + dy * dy + dz * dz);
              sinLat = math_Sin (LLA.Lat lla);
              cosLat = math_Cos (LLA.Lat lla);
              sinLon = math_Sin (LLA.Lon lla);
              cosLon = math_Cos (LLA.Lon lla);
              e = - sinLon * dx + cosLon * dy;
              n = - sinLat * cosLon * dx - sinLat * sinLon * dy + cosLat * dz;
              u = cosLat * cosLon * dx + cosLat * sinLon * dy + sinLat * dz;
              el = math_Asin (u / rng);
              az0 = math_Atan2 e n;
              az = (if az0 < Fin 0 then az0 + Fin (2 * pi) else az0)
          in Some \<lparr>Az = az, El = el, Range = rng\<rparr>
      | _ \<Rightarrow> None)"

definition LatDeg :: "LLA \<Rightarrow> float64" where
  "LatDeg lla = LLA.Lat lla * Fin Rad2Deg"

definition LonDeg :: "LLA \<Rightarrow> float64" where
  "LonDeg lla = LLA.Lon lla * Fin Rad2Deg"

definition ToLLA :: "Observer option \<Rightarrow> LLA option" where
  "ToLLA obs =
     (case obs of
        None \<Rightarrow> None
      | Some ob \<Rightarrow> Some \<lparr>Lat = Observer.Lat ob * Fin Deg2Rad, Lon = Observer.Lon ob * Fin Deg2Rad,
                      Alt = Observer.Alt ob\<rparr>)"

definition GetAER :: "(int \<Rightarrow> float64) \<Rightarrow> Observer option \<Rightarrow> ECIPosition option \<Rightarrow> AER option" where
  "GetAER gmst obs eci =
     (case (obs, eci) of
        (Some ob, Some e) \<Rightarrow>
          ECEFToAER (ECIToECEF gmst (Some e)) (ObserverToECEF (Some ob)) (ToLLA (Some ob))
      | _ \<Rightarrow> None)"

section \<open>Ground track: past and future\<close>

record TrackPoint =
  Lon :: float64
  Lat :: float64
  TS :: int

text \<open>
  The inner loop of \<open>splitPastFuture\<close>: the index of the first point whose timestamp is
  at least \<open>nowMs\<close>, or \<open>-1\<close> when the loop ends without a \<open>break\<close>.
\<close>

fun find_splitIdx :: "TrackPoint list \<Rightarrow> int \<Rightarrow> nat \<Rightarrow> int" where
  "find_splitIdx [] nowMs i = - 1"
| "find_splitIdx (p # ps) nowMs i =
     (if TS p \<ge> nowMs then int i else find_splitIdx ps nowMs (Suc i))"

fun splitPastFuture_loop ::
  "TrackPoint list list \<Rightarrow> int \<Rightarrow> TrackPoint list list \<times> TrackPoint list list
     \<Rightarrow> TrackPoint list list \<times> TrackPoint list list" where
  "splitPastFuture_loop [] nowMs (past, future) = (past, future)"
| "splitPastFuture_loop (seg # rest) nowMs (past, future) =
     (if length seg = 0 then splitPastFuture_loop rest nowMs (past, future)
      else if TS (seg ! (length seg - 1)) < nowMs then
        splitPastFuture_loop rest nowMs (past @ [seg], future)
      else if TS (seg ! 0) \<ge> nowMs then
        splitPastFuture_loop rest nowMs (past, future @ [seg])
      else
        let splitIdx = find_splitIdx seg nowMs 0 in
        if splitIdx \<le> 0 then splitPastFuture_loop rest nowMs (past, future @ [seg])
        else
          let pastPart = take (nat splitIdx) seg;
              past' = (if length pastPart > 0 then past @ [pastPart] else past);
              futurePart = drop (nat splitIdx) seg;
              future' = (if length futurePart > 0 then future @ [futurePart] else future)
          in splitPastFuture_loop rest nowMs (past', future'))"

definition splitPastFuture ::
  "TrackPoint list list \<Rightarrow> int \<Rightarrow> TrackPoint list list \<times> TrackPoint list list" where
  "splitPastFuture segments nowMs = splitPastFuture_loop segments nowMs ([], [])"

text \<open>A segment straddles \<open>nowMs\<close> when it has a point before it and a point at or after it.\<close>

definition straddles :: "TrackPoint list \<Rightarrow> int \<Rightarrow> bool" where
  "straddles seg nowMs = ((\<exists>p \<in> set seg. TS p < nowMs) \<and> (\<exists>q \<in> set seg. TS q \<ge> nowMs))"

text \<open>
  The cut in the words of the specification: the part of a segment before its first point
  whose timestamp is at least \<open>nowMs\<close>, and the part from that point on.
\<close>

definition past_of :: "int \<Rightarrow> TrackPoint list \<Rightarrow> TrackPoint list" where
  "past_of nowMs seg = takeWhile (\<lambda>p. TS p < nowMs) seg"

definition future_of :: "int \<Rightarrow> TrackPoint list \<Rightarrow> TrackPoint list" where
  "future_of nowMs seg = dropWhile (\<lambda>p. TS p < nowMs) seg"

section \<open>Upstream catalog client\<close>

text \<open>
  The world of one \<open>doRequest\<close>: building the request fails, the HTTP round trip fails
  (a network error, also a cancelled context), or a response arrives with a status code
  and a body (\<open>None\<close> when reading the body fails).
\<close>

datatype http_outcome =
    RequestError
  | DoError
  | Response int "string option"

definition doRequest :: "http_outcome \<Rightarrow> error + string" where
  "doRequest out =
     (case out of
        RequestError \<Rightarrow> Inl (Wrap ''creating request'' (Err ErrTransport))
      | DoError \<Rightarrow> Inl (Wrap ''executing request'' (Err ErrTransport))
      | Response status body \<Rightarrow>
          if status = 200 then
            (case body of
               None \<Rightarrow> Inl (Wrap ''reading response'' (Err ErrTransport))
             | Some b \<Rightarrow>
                 if b = ''No GP data found'' then Inl (Err ErrCelestrakNotFound) else Inr b)
          else if status = 404 then Inl (Err ErrCelestrakNotFound)
          else if status = 429 then Inl (Err ErrCelestrakRateLimit)
          else if status \<ge> 500 then Inl (Wrap ''status'' (Err ErrCelestrakServerError))
          else Inl (Err ErrUnexpectedStatus))"

record CelestrakClient =
  baseURL :: string
  rateLimit :: int
  maxRetries :: int
  lastRequest :: time

definition DefaultRateLimit :: int where
  "DefaultRateLimit = 2 * 1000000000"

definition DefaultMaxRetries :: int where
  "DefaultMaxRetries = 3"

definition NewCelestrakClient :: CelestrakClient where
  "NewCelestrakClient =
     \<lparr>baseURL = ''https://celestrak.org/NORAD/elements/gp.php'',
      rateLimit = DefaultRateLimit, maxRetries = DefaultMaxRetries, lastRequest = 0\<rparr>"

definition WithMaxRetries :: "int \<Rightarrow> CelestrakClient \<Rightarrow> CelestrakClient" where
  "WithMaxRetries n c = c\<lparr>maxRetries := n\<rparr>"

definition WithRateLimit :: "int \<Rightarrow> CelestrakClient \<Rightarrow> CelestrakClient" where
  "WithRateLimit d c = c\<lparr>rateLimit := d\<rparr>"

text \<open>
  What a fetch does to the outside, in order: it sleeps (durations in nanoseconds) and it
  sends requests. The events are what the claims about attempts and backoff speak of.
\<close>

datatype event = RateLimitSleep int | BackoffSleep int | Request int

text \<open>
  \<open>waitForRateLimit\<close>, with the clock reading \<open>now\<close> at the call: sleeps for what is
  missing of the minimum spacing and stamps the client with the time after the sleep.
\<close>

definition waitForRateLimit :: "CelestrakClient \<Rightarrow> time \<Rightarrow> CelestrakClient \<times> event list" where
  "waitForRateLimit c now =
     (let elapsed = now - lastRequest c
      in if elapsed < rateLimit c
         then (c\<lparr>lastRequest := now + (rateLimit c - elapsed)\<rparr>,
               [RateLimitSleep (rateLimit c - elapsed)])
         else (c\<lparr>lastRequest := now\<rparr>, []))"

text \<open>
  \<open>time.Duration(1<<uint(attempt-1)) * time.Second\<close> on 64-bit integers: the shift and
  the product wrap around.
\<close>

definition backoff :: "int \<Rightarrow> int" where
  "backoff attempt = sint ((push_bit (nat (attempt - 1)) (1 :: 64 word)) * 1000000000)"

text \<open>
  The retry loop of \<open>fetch\<close>. \<open>server k\<close> is what the request of attempt \<open>k\<close> meets;
  \<open>cancelled k\<close> says that the context is done before the backoff of attempt \<open>k\<close> has
  elapsed. The attempt counter is an unbounded integer: the loop ends long before a
  64-bit counter could wrap.
\<close>

function fetch_loop ::
  "CelestrakClient \<Rightarrow> (int \<Rightarrow> http_outcome) \<Rightarrow> (int \<Rightarrow> bool) \<Rightarrow> int \<Rightarrow> error option
     \<Rightarrow> (error + string) \<times> event list" where
  "fetch_loop c server cancelled attempt lastErr =
     (if attempt \<le> maxRetries c then
        if attempt > 0 \<and> cancelled attempt then (Inl (Err ErrContext), [])
        else
          let slept = (if attempt > 0 then [BackoffSleep (backoff attempt)] else []) in
          (case doRequest (server attempt) of
             Inr data \<Rightarrow> (Inr data, slept @ [Request attempt])
           | Inl err \<Rightarrow>
               if err = Err ErrCelestrakNotFound then (Inl err, slept @ [Request attempt])
               else
                 let (res, evs) = fetch_loop c server cancelled (attempt + 1) (Some err)
                 in (res, slept @ [Request attempt] @ evs))
      else
        (Inl (Wrap ''after retries'' (case lastErr of None \<Rightarrow> Err ErrNil | Some e \<Rightarrow> e)), []))"
  by pat_completeness auto
termination
  by (relation "measure (\<lambda>(c, server, cancelled, attempt, lastErr). nat (maxRetries c + 1 - attempt))")
     auto

definition fetch ::
  "CelestrakClient \<Rightarrow> time \<Rightarrow> (int \<Rightarrow> http_outcome) \<Rightarrow> (int \<Rightarrow> bool)
     \<Rightarrow> (error + string) \<times> CelestrakClient \<times> event list" where
  "fetch c now server cancelled =
     (let (c', waited) = waitForRateLimit c now;
          (res, evs) = fetch_loop c' server cancelled 0 None
      in (res, c', waited @ evs))"

text \<open>The number of HTTP attempts among the events of a fetch.\<close>

fun is_Request :: "event \<Rightarrow> bool" where
  "is_Request (Request k) = True"
| "is_Request _ = False"

definition attempts :: "event list \<Rightarrow> nat" where
  "attempts evs = length (filter is_Request evs)"

text \<open>
  Worlds of the repository's client tests: a server that always answers 500, one that
  answers 500 twice and then 200 with a body, and a context that is never cancelled.
\<close>

definition always_500 :: "int \<Rightarrow> http_outcome" where
  "always_500 k = Response 500 (Some [])"

definition flaky_server :: "int \<Rightarrow> http_outcome" where
  "flaky_server k = (if k < 2 then Response 500 (Some []) else Response 200 (Some ''data''))"

definition never_cancelled :: "int \<Rightarrow> bool" where
  "never_cancelled k = False"

definition test_client :: "int \<Rightarrow> CelestrakClient" where
  "test_client n = WithRateLimit 0 (WithMaxRetries n NewCelestrakClient)"

section \<open>Verified properties: TLE parser\<close>

lemma byte_lt_256: "byte c < 256"
  unfolding byte_def by (cases c) simp

lemma byte_sub0_digit: "is_digit c \<Longrightarrow> int (byte_sub0 c) = digit_value c"
proof -
  assume "is_digit c"
  then have b: "48 \<le> byte c" "byte c \<le> 57" by (simp_all add: is_digit_def)
  then have "byte c + 256 - 48 = (byte c - 48) + 256" by simp
  then have "(byte c + 256 - 48) mod 256 = (byte c - 48) mod 256" by (simp only: mod_add_self2)
  also have "\<dots> = byte c - 48" using b by simp
  finally show ?thesis using b by (simp add: byte_sub0_def digit_value_def)
qed

lemma byte_sub0_nondigit:
  assumes "\<not> is_digit c"
  shows "10 \<le> byte_sub0 c"
proof (cases "byte c < 48")
  case True
  then have "(byte c + 256 - 48) mod 256 = byte c + 208" by simp
  then show ?thesis by (simp add: byte_sub0_def)
next
  case False
  with assms have b: "58 \<le> byte c" by (simp add: is_digit_def)
  then have "byte c + 256 - 48 = (byte c - 48) + 256" by simp
  then have "(byte c + 256 - 48) mod 256 = (byte c - 48) mod 256" by (simp only: mod_add_self2)
  also have "\<dots> = byte c - 48" using byte_lt_256 [of c] by simp
  finally show ?thesis using b by (simp add: byte_sub0_def)
qed

lemma digit_value_range: "is_digit c \<Longrightarrow> 0 \<le> digit_value c \<and> digit_value c \<le> 9"
  by (simp add: is_digit_def digit_value_def)

lemma alpha5Map_codes:
  "\<forall>n \<in> set [65..<91]. n \<noteq> 73 \<longrightarrow> n \<noteq> 79 \<longrightarrow>
     alpha5Map (char_of n) = Some (alpha5_value (char_of n))"
  by (simp add: alpha5Map_def alpha5_value_def byte_def char_of_def bit_Suc_0_iff)

lemma alpha5Map_letter:
  assumes "alpha5_letter c"
  shows "alpha5Map c = Some (alpha5_value c)"
proof -
  define n where "n = byte c"
  have c: "c = char_of n" by (simp add: n_def byte_def)
  from assms have "65 \<le> n \<and> n < 91" by (simp add: alpha5_letter_def n_def)
  then have "n \<in> {65..<91}" by (simp only: atLeastLessThan_iff)
  then have "n \<in> set [65..<91]" by (simp only: set_upt)
  moreover have "n \<noteq> 73" "n \<noteq> 79"
    using assms by (auto simp: alpha5_letter_def c byte_def char_of_def bit_Suc_0_iff)
  ultimately show ?thesis
    using alpha5Map_codes unfolding c by blast
qed

lemma minus_not_digit: "\<not> is_digit (CHR ''-'')"
  by (simp add: is_digit_def byte_def)

lemma checksum_step:
  "(if byte c \<ge> 48 \<and> byte c \<le> 57 then acc + int (byte_sub0 c)
    else if c = CHR ''-'' then acc + 1 else acc) = acc + spec_contribution c"
  using byte_sub0_digit [of c] by (auto simp: spec_contribution_def is_digit_def)

lemma checksum_loop_sum: "checksum_loop s acc = acc + (\<Sum>c\<leftarrow>s. spec_contribution c)"
  by (induction s arbitrary: acc) (simp_all only: checksum_loop.simps checksum_step list.map sum_list.Nil sum_list.Cons add.assoc add_0_right)

lemma calculateChecksum_spec: "calculateChecksum s = modulo10_sum s"
  by (simp add: calculateChecksum_def modulo10_sum_def checksum_loop_sum)


lemma modulo10_sum_range: "0 \<le> modulo10_sum s \<and> modulo10_sum s < 10"
  by (simp add: modulo10_sum_def)

text \<open>
  Claim C4. For a line of exactly 69 characters, \<open>validateChecksum\<close> accepts the line if
  and only if its 69th character is a digit and the Modulo-10 sum over the first 68
  characters (digits count their value, a minus sign counts 1, every other character
  counts 0) equals that digit.
\<close>

theorem validateChecksum_modulo10:
  assumes "length line = 69"
  shows "validateChecksum line \<longleftrightarrow>
           (is_digit (line ! 68) \<and> modulo10_sum (take 68 line) = digit_value (line ! 68))"
proof (cases "is_digit (line ! 68)")
  case True
  with assms show ?thesis
    by (simp add: validateChecksum_def TLELineLength_def calculateChecksum_spec byte_sub0_digit)
next
  case False
  from byte_sub0_nondigit [OF False] modulo10_sum_range [of "take 68 line"]
  have "modulo10_sum (take 68 line) \<noteq> int (byte_sub0 (line ! 68))" by linarith
  with False assms show ?thesis
    by (simp add: validateChecksum_def TLELineLength_def calculateChecksum_spec)
qed

theorem validateChecksum_modulo10_witness:
  "length ''1 25544U 98067A   24001.50000000  .00016717  00000-0  10270-3 0  9997'' = 69 \<and>
   validateChecksum ''1 25544U 98067A   24001.50000000  .00016717  00000-0  10270-3 0  9997''"
  using validateChecksum_modulo10
    [of "''1 25544U 98067A   24001.50000000  .00016717  00000-0  10270-3 0  9997''"]
  by (simp add: modulo10_sum_def spec_contribution_def is_digit_def digit_value_def byte_def)

lemma alpha5Map_I: "alpha5Map (CHR ''I'') = None" and alpha5Map_O: "alpha5Map (CHR ''O'') = None"
  by (simp_all add: alpha5Map_def)

lemma decimal_value_Nil: "decimal_value [] = 0"
  by (simp add: decimal_value_def)

lemma decimal_value_Cons:
  "decimal_value (c # cs) = digit_value c * 10 ^ length cs + decimal_value cs"
  by (simp add: decimal_value_def sum.lessThan_Suc_shift del: sum.lessThan_Suc)

lemma atoi_digits_decimal:
  "list_all is_digit s \<Longrightarrow> atoi_digits s acc = acc * 10 ^ length s + decimal_value s"
  by (induction s arbitrary: acc)
     (simp_all add: decimal_value_Nil decimal_value_Cons byte_sub0_digit algebra_simps)

lemma decimal_value_range:
  "list_all is_digit s \<Longrightarrow> 0 \<le> decimal_value s \<and> decimal_value s < 10 ^ length s"
proof (induction s)
  case Nil
  then show ?case by (simp add: decimal_value_Nil)
next
  case (Cons c cs)
  then have d: "0 \<le> digit_value c" "digit_value c \<le> 9"
    and r: "0 \<le> decimal_value cs" "decimal_value cs < 10 ^ length cs"
    using digit_value_range [of c] by simp_all
  have m: "digit_value c * 10 ^ length cs \<le> 9 * 10 ^ length cs"
    using d by (simp add: mult_right_mono)
  have p: "0 \<le> digit_value c * 10 ^ length cs"
    using d by simp
  have "digit_value c * 10 ^ length cs + decimal_value cs < 10 * 10 ^ length cs"
    using m r by linarith
  with p r show ?case by (simp add: decimal_value_Cons)
qed

lemma Atoi_digits:
  assumes "list_all is_digit s" "s \<noteq> []" "length s \<le> 18"
  shows "Atoi s = Inr (decimal_value s)"
proof -
  from assms(1,2) have hd: "is_digit (hd s)" by (cases s) simp_all
  have nosign: "hd s \<noteq> CHR ''-''" "hd s \<noteq> CHR ''+''"
    using hd by (auto simp: is_digit_def byte_def)
  have "(10::int) ^ length s \<le> 10 ^ 18"
    using assms(3) by (intro power_increasing) simp_all
  with decimal_value_range [OF assms(1)]
  have "0 \<le> decimal_value s" "decimal_value s \<le> 2 ^ 63 - 1" by simp_all
  with assms nosign show ?thesis
    by (simp add: Atoi_def Let_def atoi_digits_decimal)
qed

text \<open>
  Claim C5. \<open>parseNoradID\<close> maps a 5-character field whose first character is a letter
  of A-H, J-N, P-Z (valued 10 to 33 in sequence, I and O skipped) and whose other four
  characters are digits to letter value times 10000 plus the decimal value of the four
  digits; \<open>A0000\<close> gives 100000 and \<open>Z9999\<close> gives 339999; a field that starts with I
  or O is rejected with the alpha5-invalid error; an all-digit 5-character field is read
  as a base-10 integer.
\<close>

theorem parseNoradID_alpha5:
  "(length s1 = 5 \<and> alpha5_letter (s1 ! 0) \<and> list_all is_digit (drop 1 s1) \<longrightarrow>
      parseNoradID s1 = Inr (alpha5_value (s1 ! 0) * 10000 + decimal_value (drop 1 s1)))
   \<and> parseNoradID ''A0000'' = Inr 100000
   \<and> parseNoradID ''Z9999'' = Inr 339999
   \<and> (s2 \<noteq> [] \<and> (s2 ! 0 = CHR ''I'' \<or> s2 ! 0 = CHR ''O'') \<longrightarrow>
        (\<exists>e. parseNoradID s2 = Inl e \<and> errors_Is e ErrInvalidAlpha5))
   \<and> (length s3 = 5 \<and> list_all is_digit s3 \<longrightarrow> parseNoradID s3 = Inr (decimal_value s3))"
proof (intro conjI impI)
  assume a: "length s1 = 5 \<and> alpha5_letter (s1 ! 0) \<and> list_all is_digit (drop 1 s1)"
  then have "Atoi (take 4 (drop 1 s1)) = Inr (decimal_value (drop 1 s1))"
    using Atoi_digits [of "drop 1 s1"] by auto
  with a show "parseNoradID s1 = Inr (alpha5_value (s1 ! 0) * 10000 + decimal_value (drop 1 s1))"
    by (simp add: parseNoradID_def alpha5Map_letter alpha5_letter_def)
next
  show "parseNoradID ''A0000'' = Inr 100000"
    by (simp add: parseNoradID_def alpha5Map_def Atoi_def byte_def is_digit_def byte_sub0_def)
next
  show "parseNoradID ''Z9999'' = Inr 339999"
    by (simp add: parseNoradID_def alpha5Map_def Atoi_def byte_def is_digit_def byte_sub0_def)
next
  assume "s2 \<noteq> [] \<and> (s2 ! 0 = CHR ''I'' \<or> s2 ! 0 = CHR ''O'')"
  then show "\<exists>e. parseNoradID s2 = Inl e \<and> errors_Is e ErrInvalidAlpha5"
    by (auto simp: parseNoradID_def alpha5Map_I alpha5Map_O byte_def)
next
  assume a: "length s3 = 5 \<and> list_all is_digit s3"
  then have ne: "s3 \<noteq> []" by auto
  with a have "is_digit (s3 ! 0)" by (cases s3) simp_all
  then have "byte (s3 ! 0) < 65" by (simp add: is_digit_def)
  moreover have "Atoi s3 = Inr (decimal_value s3)" using a ne Atoi_digits [of s3] by simp
  ultimately show "parseNoradID s3 = Inr (decimal_value s3)"
    using ne by (simp add: parseNoradID_def Let_def)
qed

theorem parseNoradID_alpha5_witness:
  "parseNoradID ''B1234'' = Inr 111234
   \<and> (\<exists>e. parseNoradID ''O0000'' = Inl e \<and> errors_Is e ErrInvalidAlpha5)
   \<and> parseNoradID ''25544'' = Inr 25544"
  using parseNoradID_alpha5 [of "''B1234''" "''O0000''" "''25544''"]
  by (simp add: alpha5_letter_def alpha5_value_def is_digit_def byte_def decimal_value_def
      digit_value_def lessThan_nat_numeral lessThan_Suc)

section \<open>Verified properties: past and future segments\<close>

lemma find_splitIdx_takeWhile:
  "find_splitIdx seg nowMs i =
     (if \<forall>p \<in> set seg. TS p < nowMs then - 1
      else int (i + length (takeWhile (\<lambda>p. TS p < nowMs) seg)))"
  by (induction seg arbitrary: i) auto

lemma sorted_last_before:
  assumes "sorted (map TS seg)" "seg \<noteq> []" "TS (seg ! (length seg - 1)) < nowMs"
  shows "\<forall>p \<in> set seg. TS p < nowMs"
proof
  fix p assume "p \<in> set seg"
  then obtain i where i: "i < length seg" "seg ! i = p" by (auto simp: in_set_conv_nth)
  then have "map TS seg ! i \<le> map TS seg ! (length seg - 1)"
    using assms(1,2) by (intro sorted_nth_mono) auto
  with i assms show "TS p < nowMs" by simp
qed

lemma sorted_first_after:
  assumes "sorted (map TS seg)" "seg \<noteq> []" "TS (seg ! 0) \<ge> nowMs"
  shows "\<forall>p \<in> set seg. TS p \<ge> nowMs"
proof
  fix p assume "p \<in> set seg"
  then obtain i where i: "i < length seg" "seg ! i = p" by (auto simp: in_set_conv_nth)
  then have "map TS seg ! 0 \<le> map TS seg ! i"
    using assms(1,2) by (intro sorted_nth_mono) auto
  with i assms show "TS p \<ge> nowMs" by simp
qed

lemma step_cut:
  assumes "sorted (map TS seg)"
  shows "splitPastFuture_loop (seg # rest) nowMs (past, future) =
         splitPastFuture_loop rest nowMs
           (if past_of nowMs seg \<noteq> [] then past @ [past_of nowMs seg] else past,
            if future_of nowMs seg \<noteq> [] then future @ [future_of nowMs seg] else future)"
proof (cases "seg = []")
  case True
  then show ?thesis by (simp add: past_of_def future_of_def)
next
  case ne: False
  show ?thesis
  proof (cases "TS (seg ! (length seg - 1)) < nowMs")
    case True
    from sorted_last_before [OF assms ne True]
    have "past_of nowMs seg = seg" "future_of nowMs seg = []"
      by (simp_all add: past_of_def future_of_def)
    with ne True show ?thesis by simp
  next
    case nl: False
    show ?thesis
    proof (cases "TS (seg ! 0) \<ge> nowMs")
      case True
      then have "past_of nowMs seg = []" "future_of nowMs seg = seg"
        using ne by (cases seg; simp add: past_of_def future_of_def)+
      with ne nl True show ?thesis by simp
    next
      case nf: False
      from nl ne have ex: "\<not> (\<forall>p \<in> set seg. TS p < nowMs)"
        by (metis last_conv_nth last_in_set)
      define k where "k = length (takeWhile (\<lambda>p. TS p < nowMs) seg)"
      have idx: "find_splitIdx seg nowMs 0 = int k"
        using ex by (simp add: find_splitIdx_takeWhile k_def)
      have kpos: "0 < k" using nf ne by (cases seg) (simp_all add: k_def)
      have tk: "take k seg = past_of nowMs seg"
        unfolding k_def past_of_def by (rule takeWhile_eq_take [symmetric])
      have dk: "drop k seg = future_of nowMs seg"
        unfolding k_def future_of_def by (rule dropWhile_eq_drop [symmetric])
      have len: "length seg \<noteq> 0" using ne by simp
      have ip: "\<not> int k \<le> 0" using kpos by simp
      have nk: "nat (int k) = k" by simp
      show ?thesis
        unfolding splitPastFuture_loop.simps Let_def idx nk tk dk
        using len nl nf ip by (simp only: if_False if_True length_greater_0_conv)
    qed
  qed
qed

lemma loop_cut:
  assumes "\<forall>seg \<in> set segments. sorted (map TS seg)"
  shows "splitPastFuture_loop segments nowMs (past, future) =
         (past @ filter (\<lambda>s. s \<noteq> []) (map (past_of nowMs) segments),
          future @ filter (\<lambda>s. s \<noteq> []) (map (future_of nowMs) segments))"
  using assms
proof (induction segments arbitrary: past future)
  case Nil
  then show ?case by simp
next
  case (Cons seg rest)
  then have s: "sorted (map TS seg)" and r: "\<forall>seg \<in> set rest. sorted (map TS seg)" by simp_all
  show ?case
    unfolding step_cut [OF s] Cons.IH [OF r] by simp
qed


lemma future_all_after:
  assumes "sorted (map TS seg)" "future_of nowMs seg \<noteq> []"
  shows "TS (hd (future_of nowMs seg)) \<ge> nowMs"
    and "\<forall>p \<in> set (future_of nowMs seg). TS p \<ge> nowMs"
proof -
  let ?f = "future_of nowMs seg"
  have "\<not> TS (hd ?f) < nowMs"
    using assms(2) unfolding future_of_def by (rule hd_dropWhile)
  then show h: "TS (hd ?f) \<ge> nowMs" by simp
  have "?f = drop (length (takeWhile (\<lambda>p. TS p < nowMs) seg)) seg"
    unfolding future_of_def by (rule dropWhile_eq_drop)
  then have "map TS ?f = drop (length (takeWhile (\<lambda>p. TS p < nowMs) seg)) (map TS seg)"
    by (simp only: drop_map)
  then have "sorted (map TS ?f)" using assms(1) by (simp only: sorted_wrt_drop)
  moreover have "TS (?f ! 0) \<ge> nowMs" using h assms(2) by (simp add: hd_conv_nth)
  ultimately show "\<forall>p \<in> set ?f. TS p \<ge> nowMs"
    using assms(2) by (intro sorted_first_after)
qed

lemma past_all_before: "\<forall>p \<in> set (past_of nowMs seg). TS p < nowMs"
  unfolding past_of_def by (auto dest: set_takeWhileD)

text \<open>
  Claim C7. When the timestamps of every segment are non-decreasing, every point of a
  past segment returned by \<open>splitPastFuture\<close> is strictly before \<open>nowMs\<close>, every future
  segment is non-empty and starts at or after \<open>nowMs\<close>; the past segments are the
  non-empty parts of the input segments before their first point at or after \<open>nowMs\<close>,
  the future segments the non-empty parts from that point on; and no returned segment
  straddles \<open>nowMs\<close>.
\<close>

theorem splitPastFuture_partition:
  assumes "\<forall>seg \<in> set segments. sorted (map TS seg)"
  shows "(\<forall>s \<in> set (fst (splitPastFuture segments nowMs)). \<forall>p \<in> set s. TS p < nowMs)
       \<and> (\<forall>s \<in> set (snd (splitPastFuture segments nowMs)). s \<noteq> [] \<and> TS (hd s) \<ge> nowMs)
       \<and> fst (splitPastFuture segments nowMs) =
             filter (\<lambda>s. s \<noteq> []) (map (past_of nowMs) segments)
       \<and> snd (splitPastFuture segments nowMs) =
             filter (\<lambda>s. s \<noteq> []) (map (future_of nowMs) segments)
       \<and> (\<forall>s \<in> set (fst (splitPastFuture segments nowMs))
                  \<union> set (snd (splitPastFuture segments nowMs)). \<not> straddles s nowMs)"
proof -
  have eq: "splitPastFuture segments nowMs =
        (filter (\<lambda>s. s \<noteq> []) (map (past_of nowMs) segments),
         filter (\<lambda>s. s \<noteq> []) (map (future_of nowMs) segments))"
    unfolding splitPastFuture_def loop_cut [OF assms] by simp
  have p: "\<forall>s \<in> set (fst (splitPastFuture segments nowMs)). \<forall>p \<in> set s. TS p < nowMs"
    unfolding eq using past_all_before by auto
  have f: "\<forall>s \<in> set (snd (splitPastFuture segments nowMs)).
             s \<noteq> [] \<and> TS (hd s) \<ge> nowMs \<and> (\<forall>p \<in> set s. TS p \<ge> nowMs)"
    unfolding eq using assms future_all_after by auto
  have n: "\<forall>s \<in> set (fst (splitPastFuture segments nowMs))
                  \<union> set (snd (splitPastFuture segments nowMs)). \<not> straddles s nowMs"
  proof
    fix s assume "s \<in> set (fst (splitPastFuture segments nowMs))
                  \<union> set (snd (splitPastFuture segments nowMs))"
    then consider "\<forall>p \<in> set s. TS p < nowMs" | "\<forall>p \<in> set s. TS p \<ge> nowMs"
      using p f by blast
    then show "\<not> straddles s nowMs"
    proof cases
      case 1
      then have "\<not> (\<exists>q \<in> set s. TS q \<ge> nowMs)" by (simp add: not_le)
      then show ?thesis by (simp only: straddles_def simp_thms)
    next
      case 2
      then have "\<not> (\<exists>q \<in> set s. TS q < nowMs)" by (simp add: not_less)
      then show ?thesis by (simp only: straddles_def simp_thms)
    qed
  qed
  show ?thesis
  proof (intro conjI)
    show "\<forall>s \<in> set (fst (splitPastFuture segments nowMs)). \<forall>p \<in> set s. TS p < nowMs"
      by (rule p)
    show "\<forall>s \<in> set (snd (splitPastFuture segments nowMs)). s \<noteq> [] \<and> TS (hd s) \<ge> nowMs"
      using f by blast
    show "fst (splitPastFuture segments nowMs) =
            filter (\<lambda>s. s \<noteq> []) (map (past_of nowMs) segments)"
      by (simp only: eq fst_conv)
    show "snd (splitPastFuture segments nowMs) =
            filter (\<lambda>s. s \<noteq> []) (map (future_of nowMs) segments)"
      by (simp only: eq snd_conv)
    show "\<forall>s \<in> set (fst (splitPastFuture segments nowMs))
                  \<union> set (snd (splitPastFuture segments nowMs)). \<not> straddles s nowMs"
      by (rule n)
  qed
qed

theorem splitPastFuture_partition_witness:
  "sorted (map TS [\<lparr>Lon = Fin 10, Lat = Fin 0, TS = 1000\<rparr>,
                   \<lparr>Lon = Fin 20, Lat = Fin 1, TS = 2000\<rparr>,
                   \<lparr>Lon = Fin 30, Lat = Fin 2, TS = 3000\<rparr>,
                   \<lparr>Lon = Fin 40, Lat = Fin 3, TS = 4000\<rparr>])
   \<and> splitPastFuture [[\<lparr>Lon = Fin 10, Lat = Fin 0, TS = 1000\<rparr>,
                        \<lparr>Lon = Fin 20, Lat = Fin 1, TS = 2000\<rparr>,
                        \<lparr>Lon = Fin 30, Lat = Fin 2, TS = 3000\<rparr>,
                        \<lparr>Lon = Fin 40, Lat = Fin 3, TS = 4000\<rparr>]] 2500 =
       ([[\<lparr>Lon = Fin 10, Lat = Fin 0, TS = 1000\<rparr>, \<lparr>Lon = Fin 20, Lat = Fin 1, TS = 2000\<rparr>]],
        [[\<lparr>Lon = Fin 30, Lat = Fin 2, TS = 3000\<rparr>, \<lparr>Lon = Fin 40, Lat = Fin 3, TS = 4000\<rparr>]])"
  using splitPastFuture_partition
    [of "[[\<lparr>Lon = Fin 10, Lat = Fin 0, TS = 1000\<rparr>,
           \<lparr>Lon = Fin 20, Lat = Fin 1, TS = 2000\<rparr>,
           \<lparr>Lon = Fin 30, Lat = Fin 2, TS = 3000\<rparr>,
           \<lparr>Lon = Fin 40, Lat = Fin 3, TS = 4000\<rparr>]]" 2500]
  by (simp add: past_of_def future_of_def prod_eq_iff)

section \<open>Verified properties: TLE store\<close>

lemma addToIndex_idem: "addToIndex (addToIndex m k i) k i = addToIndex m k i"
  by (auto simp: addToIndex_def index_get_def Let_def)

lemma addToIndex_distinct:
  assumes "\<forall>k ids. m k = Some ids \<longrightarrow> distinct ids"
  shows "\<forall>k ids. addToIndex m key i k = Some ids \<longrightarrow> distinct ids"
  using assms by (auto simp: addToIndex_def index_get_def Let_def split: option.splits if_splits)

lemma addInternal_idem: "addInternal (addInternal s rec g) rec g = addInternal s rec g"
  by (cases rec) (simp_all add: addInternal_def Let_def addToIndex_idem)

lemma byGroup_addInternal:
  "byGroup (addInternal s (Some t) g) =
     (if g \<noteq> [] then addToIndex (byGroup s) (ToLower g) (NoradID t) else byGroup s)"
  by (simp add: addInternal_def Let_def)

lemma byName_addInternal:
  "byName (addInternal s (Some t) g) =
     (if Name t \<noteq> [] then addToIndex (byName s) (ToLower (Name t)) (NoradID t) else byName s)"
  by (simp add: addInternal_def Let_def)

lemma addInternal_distinct:
  assumes "index_no_duplicates s"
  shows "index_no_duplicates (addInternal s rec g)"
proof (cases rec)
  case None
  with assms show ?thesis by (simp add: addInternal_def)
next
  case (Some t)
  from assms have G: "\<forall>k ids. byGroup s k = Some ids \<longrightarrow> distinct ids"
    and N: "\<forall>k ids. byName s k = Some ids \<longrightarrow> distinct ids"
    unfolding index_no_duplicates_def by blast+
  have "\<forall>k ids. byGroup (addInternal s (Some t) g) k = Some ids \<longrightarrow> distinct ids"
  proof (cases "g \<noteq> []")
    case True
    then show ?thesis
      using addToIndex_distinct [OF G, of "ToLower g" "NoradID t"]
      by (simp add: byGroup_addInternal)
  next
    case False
    then show ?thesis using G by (simp add: byGroup_addInternal)
  qed
  moreover have "\<forall>k ids. byName (addInternal s (Some t) g) k = Some ids \<longrightarrow> distinct ids"
  proof (cases "Name t \<noteq> []")
    case True
    then show ?thesis
      using addToIndex_distinct [OF N, of "ToLower (Name t)" "NoradID t"]
      by (simp add: byName_addInternal)
  next
    case False
    then show ?thesis using N by (simp add: byName_addInternal)
  qed
  ultimately show ?thesis unfolding Some index_no_duplicates_def by (rule conjI)
qed

text \<open>
  Claim C9. A second \<open>Add\<close> (or \<open>AddWithGroup\<close>) of the same record leaves the catalog, the
  group index and the name index exactly as after the first; the indexes of a new store
  hold no duplicate, and \<open>Add\<close> and \<open>AddWithGroup\<close> keep them so.
\<close>

theorem Add_idempotent:
  "Add (Add s t) t = Add s t
   \<and> AddWithGroup (AddWithGroup s t g) t g = AddWithGroup s t g
   \<and> index_no_duplicates NewTLEStore
   \<and> (index_no_duplicates s \<longrightarrow>
        index_no_duplicates (Add s t) \<and> index_no_duplicates (AddWithGroup s t g))"
proof (intro conjI impI)
  show "Add (Add s t) t = Add s t"
    by (simp only: Add_def addInternal_idem)
  show "AddWithGroup (AddWithGroup s t g) t g = AddWithGroup s t g"
    by (simp only: AddWithGroup_def addInternal_idem)
  show "index_no_duplicates NewTLEStore"
    by (simp add: index_no_duplicates_def NewTLEStore_def)
  show "index_no_duplicates (Add s t)" if "index_no_duplicates s"
    using that by (simp only: Add_def addInternal_distinct)
  show "index_no_duplicates (AddWithGroup s t g)" if "index_no_duplicates s"
    using that by (simp only: AddWithGroup_def addInternal_distinct)
qed


theorem Add_idempotent_witness:
  "index_no_duplicates NewTLEStore
   \<and> index_no_duplicates (AddWithGroup NewTLEStore (Some iss_record) ''Stations'')
   \<and> byGroup (AddWithGroup (AddWithGroup NewTLEStore (Some iss_record) ''Stations'')
                (Some iss_record) ''Stations'') ''stations'' = Some [25544]"
proof -
  have "byGroup (AddWithGroup NewTLEStore (Some iss_record) ''Stations'') ''stations'' = Some [25544]"
    by (simp add: AddWithGroup_def addInternal_def NewTLEStore_def iss_record_def Let_def
        addToIndex_def index_get_def ToLower_def lower_char_def byte_def char_of_def bit_Suc_0_iff)
  then show ?thesis
    using Add_idempotent [of NewTLEStore "Some iss_record" "''Stations''"] by simp
qed

section \<open>Verified properties: upstream catalog client\<close>

declare fetch_loop.simps [simp del]

lemma fetch_loop_done:
  "\<not> a \<le> maxRetries c \<Longrightarrow> snd (fetch_loop c server cancelled a le) = []"
  by (subst fetch_loop.simps) simp

lemma fetch_loop_cancelled:
  "a \<le> maxRetries c \<Longrightarrow> 0 < a \<Longrightarrow> cancelled a \<Longrightarrow>
   fetch_loop c server cancelled a le = (Inl (Err ErrContext), [])"
  by (subst fetch_loop.simps) simp

lemma fetch_loop_success:
  "a \<le> maxRetries c \<Longrightarrow> \<not> (0 < a \<and> cancelled a) \<Longrightarrow> doRequest (server a) = Inr d \<Longrightarrow>
   fetch_loop c server cancelled a le =
     (Inr d, (if a > 0 then [BackoffSleep (backoff a)] else []) @ [Request a])"
  by (subst fetch_loop.simps) (simp add: Let_def)

lemma fetch_loop_notfound:
  "a \<le> maxRetries c \<Longrightarrow> \<not> (0 < a \<and> cancelled a) \<Longrightarrow>
   doRequest (server a) = Inl (Err ErrCelestrakNotFound) \<Longrightarrow>
   fetch_loop c server cancelled a le =
     (Inl (Err ErrCelestrakNotFound), (if a > 0 then [BackoffSleep (backoff a)] else []) @ [Request a])"
  by (subst fetch_loop.simps) (simp add: Let_def)

lemma fetch_loop_retry:
  "a \<le> maxRetries c \<Longrightarrow> \<not> (0 < a \<and> cancelled a) \<Longrightarrow>
   doRequest (server a) = Inl e \<Longrightarrow> e \<noteq> Err ErrCelestrakNotFound \<Longrightarrow>
   fetch_loop c server cancelled a le =
     (fst (fetch_loop c server cancelled (a + 1) (Some e)),
      (if a > 0 then [BackoffSleep (backoff a)] else []) @ [Request a]
        @ snd (fetch_loop c server cancelled (a + 1) (Some e)))"
  by (subst fetch_loop.simps) (simp add: Let_def split_beta)

text \<open>The events of the loop from attempt \<open>a\<close> on, when it is entered and not cancelled.\<close>

lemma fetch_loop_head:
  assumes "a \<le> maxRetries c" "\<not> (0 < a \<and> cancelled a)"
  shows "\<exists>post. snd (fetch_loop c server cancelled a le) =
           (if a > 0 then [BackoffSleep (backoff a)] else []) @ Request a # post"
proof (cases "doRequest (server a)")
  case (Inr d)
  show ?thesis unfolding fetch_loop_success [where server = server and cancelled = cancelled and a = a, OF assms Inr] by simp
next
  case (Inl e)
  show ?thesis
  proof (cases "e = Err ErrCelestrakNotFound")
    case True
    with Inl have "doRequest (server a) = Inl (Err ErrCelestrakNotFound)" by simp
    from fetch_loop_notfound [where server = server and cancelled = cancelled and a = a, OF assms this] show ?thesis by simp
  next
    case False
    from fetch_loop_retry [where server = server and cancelled = cancelled and a = a, OF assms Inl False] show ?thesis by simp
  qed
qed

lemma attempts_append: "attempts (xs @ ys) = attempts xs + attempts ys"
  by (simp add: attempts_def)

lemma attempts_step:
  "attempts ((if a > 0 then [BackoffSleep (backoff a)] else []) @ [Request a] @ evs) = Suc (attempts evs)"
  by (simp add: attempts_def)

lemma fetch_loop_attempts:
  "attempts (snd (fetch_loop c server cancelled a le)) \<le> nat (maxRetries c + 1 - a)"
proof (induction "nat (maxRetries c + 1 - a)" arbitrary: a le)
  case 0
  then have "\<not> a \<le> maxRetries c" by simp
  then show ?case by (simp add: fetch_loop_done attempts_def)
next
  case (Suc n)
  then have le: "a \<le> maxRetries c" and n: "n = nat (maxRetries c + 1 - (a + 1))" by simp_all
  show ?case
  proof (cases "0 < a \<and> cancelled a")
    case True
    with le show ?thesis by (simp add: fetch_loop_cancelled attempts_def)
  next
    case nc: False
    show ?thesis
    proof (cases "doRequest (server a)")
      case (Inr d)
      show ?thesis unfolding fetch_loop_success [where server = server and cancelled = cancelled and a = a, OF le nc Inr] using le
        by (simp add: attempts_def)
    next
      case (Inl e)
      show ?thesis
      proof (cases "e = Err ErrCelestrakNotFound")
        case True
        with Inl have "doRequest (server a) = Inl (Err ErrCelestrakNotFound)" by simp
        from fetch_loop_notfound [where server = server and cancelled = cancelled and a = a, OF le nc this] le show ?thesis
          by (simp add: attempts_def)
      next
        case False
        have "attempts (snd (fetch_loop c server cancelled (a + 1) (Some e))) \<le> n"
          using Suc.hyps(1) [OF n] n by simp
        moreover have "Suc n = nat (maxRetries c + 1 - a)" using Suc.hyps(2) by simp
        ultimately show ?thesis
          unfolding fetch_loop_retry [where server = server and cancelled = cancelled and a = a, OF le nc Inl False] snd_conv attempts_step by linarith
      qed
    qed
  qed
qed


lemma fetch_loop_cases [case_names finished cancel stop retry]:
  fixes c server cancelled a le
  defines "L \<equiv> fetch_loop c server cancelled a le"
  defines "slept \<equiv> (if a > 0 then [BackoffSleep (backoff a)] else [])"
  obtains
    "\<not> a \<le> maxRetries c" "snd L = []"
  | "a \<le> maxRetries c" "0 < a" "cancelled a" "L = (Inl (Err ErrContext), [])"
  | "a \<le> maxRetries c" "\<not> (0 < a \<and> cancelled a)"
    "(\<exists>d. doRequest (server a) = Inr d) \<or> doRequest (server a) = Inl (Err ErrCelestrakNotFound)"
    "L = (doRequest (server a), slept @ [Request a])"
  | e where "a \<le> maxRetries c" "\<not> (0 < a \<and> cancelled a)"
    "doRequest (server a) = Inl e" "e \<noteq> Err ErrCelestrakNotFound"
    "L = (fst (fetch_loop c server cancelled (a + 1) (Some e)),
          slept @ [Request a] @ snd (fetch_loop c server cancelled (a + 1) (Some e)))"
proof (cases "a \<le> maxRetries c")
  case False
  then show ?thesis using that(1) by (simp add: L_def fetch_loop_done)
next
  case le: True
  show ?thesis
  proof (cases "0 < a \<and> cancelled a")
    case True
    then show ?thesis using that(2) le by (simp add: L_def fetch_loop_cancelled)
  next
    case nc: False
    show ?thesis
    proof (cases "doRequest (server a)")
      case (Inr d)
      from fetch_loop_success [where server = server and cancelled = cancelled and a = a, OF le nc Inr]
      show ?thesis using that(3) le nc Inr by (simp add: L_def slept_def)
    next
      case (Inl e)
      show ?thesis
      proof (cases "e = Err ErrCelestrakNotFound")
        case True
        with Inl have nf: "doRequest (server a) = Inl (Err ErrCelestrakNotFound)" by simp
        from fetch_loop_notfound [where server = server and cancelled = cancelled and a = a, OF le nc nf]
        show ?thesis using that(3) le nc nf by (simp add: L_def slept_def)
      next
        case False
        from fetch_loop_retry [where server = server and cancelled = cancelled and a = a, OF le nc Inl False]
        show ?thesis using that(4) le nc Inl False by (simp add: L_def slept_def)
      qed
    qed
  qed
qed

lemma fetch_loop_range:
  "Request k \<in> set (snd (fetch_loop c server cancelled a le)) \<Longrightarrow> a \<le> k \<and> k \<le> maxRetries c"
proof (induction "nat (maxRetries c + 1 - a)" arbitrary: a le)
  case 0
  then have "\<not> a \<le> maxRetries c" by simp
  with 0 show ?case by (simp add: fetch_loop_done)
next
  case (Suc n)
  show ?case
  proof (cases c server cancelled a le rule: fetch_loop_cases)
    case finished
    with Suc.prems show ?thesis by simp
  next
    case cancel
    with Suc.prems show ?thesis by simp
  next
    case stop
    with Suc.prems show ?thesis by (simp split: if_splits)
  next
    case (retry e)
    from Suc.hyps(2) retry(1) have n: "n = nat (maxRetries c + 1 - (a + 1))" by simp
    from Suc.prems retry(5)
    consider "k = a" | "Request k \<in> set (snd (fetch_loop c server cancelled (a + 1) (Some e)))"
      by (auto split: if_splits)
    then show ?thesis
    proof cases
      case 1
      with retry(1) show ?thesis by simp
    next
      case 2
      from Suc.hyps(1) [OF n 2] show ?thesis by simp
    qed
  qed
qed

lemma fetch_loop_notfound_final:
  "Request k \<in> set (snd (fetch_loop c server cancelled a le)) \<Longrightarrow>
   doRequest (server k) = Inl (Err ErrCelestrakNotFound) \<Longrightarrow>
   fst (fetch_loop c server cancelled a le) = Inl (Err ErrCelestrakNotFound) \<and>
   (\<forall>j > k. Request j \<notin> set (snd (fetch_loop c server cancelled a le)))"
proof (induction "nat (maxRetries c + 1 - a)" arbitrary: a le)
  case 0
  then have "\<not> a \<le> maxRetries c" by simp
  with 0 show ?case by (simp add: fetch_loop_done)
next
  case (Suc n)
  show ?case
  proof (cases c server cancelled a le rule: fetch_loop_cases)
    case finished
    with Suc.prems show ?thesis by simp
  next
    case cancel
    with Suc.prems show ?thesis by simp
  next
    case stop
    from Suc.prems(1) stop(4) have "k = a" by (simp split: if_splits)
    with Suc.prems(2) stop(4) show ?thesis by (simp split: if_splits)
  next
    case (retry e)
    from Suc.hyps(2) retry(1) have n: "n = nat (maxRetries c + 1 - (a + 1))" by simp
    from Suc.prems retry(5)
    consider "k = a" | "Request k \<in> set (snd (fetch_loop c server cancelled (a + 1) (Some e)))"
      by (auto split: if_splits)
    then show ?thesis
    proof cases
      case 1
      with Suc.prems(2) retry(3,4) show ?thesis by simp
    next
      case 2
      from fetch_loop_range [OF 2] have "a < k" by simp
      with Suc.hyps(1) [OF n 2 Suc.prems(2)] retry(5) show ?thesis by (auto split: if_splits)
    qed
  qed
qed

lemma fetch_loop_cancel_final:
  "Request k \<in> set (snd (fetch_loop c server cancelled a le)) \<Longrightarrow>
   doRequest (server k) = Inl e \<Longrightarrow> e \<noteq> Err ErrCelestrakNotFound \<Longrightarrow>
   k < maxRetries c \<Longrightarrow> 0 \<le> k \<Longrightarrow> cancelled (k + 1) \<Longrightarrow>
   fst (fetch_loop c server cancelled a le) = Inl (Err ErrContext) \<and>
   (\<forall>j > k. Request j \<notin> set (snd (fetch_loop c server cancelled a le)))"
proof (induction "nat (maxRetries c + 1 - a)" arbitrary: a le)
  case 0
  then have "\<not> a \<le> maxRetries c" by simp
  with 0 show ?case by (simp add: fetch_loop_done)
next
  case (Suc n)
  show ?case
  proof (cases c server cancelled a le rule: fetch_loop_cases)
    case finished
    with Suc.prems show ?thesis by simp
  next
    case cancel
    with Suc.prems show ?thesis by simp
  next
    case stop
    from Suc.prems(1) stop(4) have "k = a" by (simp split: if_splits)
    with Suc.prems(2,3) stop(3) show ?thesis by auto
  next
    case (retry e')
    from Suc.hyps(2) retry(1) have n: "n = nat (maxRetries c + 1 - (a + 1))" by simp
    from Suc.prems retry(5)
    consider "k = a" | "Request k \<in> set (snd (fetch_loop c server cancelled (a + 1) (Some e')))"
      by (auto split: if_splits)
    then show ?thesis
    proof cases
      case 1
      with Suc.prems have "a + 1 \<le> maxRetries c" "0 < a + 1" "cancelled (a + 1)" by simp_all
      from fetch_loop_cancelled [where cancelled = cancelled and a = "a + 1" and server = server and le = "Some e'", OF this] retry(5) 1
      show ?thesis by (auto split: if_splits)
    next
      case 2
      from fetch_loop_range [OF 2] have "a < k" by simp
      with Suc.hyps(1) [OF n 2 Suc.prems(2-6)] retry(5) show ?thesis by (auto split: if_splits)
    qed
  qed
qed

lemma fetch_loop_retries:
  "Request k \<in> set (snd (fetch_loop c server cancelled a le)) \<Longrightarrow>
   doRequest (server k) = Inl e \<Longrightarrow> e \<noteq> Err ErrCelestrakNotFound \<Longrightarrow>
   k < maxRetries c \<Longrightarrow> 0 \<le> k \<Longrightarrow> \<not> cancelled (k + 1) \<Longrightarrow>
   \<exists>pre post. snd (fetch_loop c server cancelled a le) =
      pre @ [Request k, BackoffSleep (backoff (k + 1)), Request (k + 1)] @ post"
proof (induction "nat (maxRetries c + 1 - a)" arbitrary: a le)
  case 0
  then have "\<not> a \<le> maxRetries c" by simp
  with 0 show ?case by (simp add: fetch_loop_done)
next
  case (Suc n)
  show ?case
  proof (cases c server cancelled a le rule: fetch_loop_cases)
    case finished
    with Suc.prems show ?thesis by simp
  next
    case cancel
    with Suc.prems show ?thesis by simp
  next
    case stop
    from Suc.prems(1) stop(4) have "k = a" by (simp split: if_splits)
    with Suc.prems(2,3) stop(3) show ?thesis by auto
  next
    case (retry e')
    let ?rest = "snd (fetch_loop c server cancelled (a + 1) (Some e'))"
    let ?slept = "if a > 0 then [BackoffSleep (backoff a)] else []"
    have ev: "snd (fetch_loop c server cancelled a le) = ?slept @ [Request a] @ ?rest"
      using retry(5) by simp
    from Suc.hyps(2) retry(1) have n: "n = nat (maxRetries c + 1 - (a + 1))" by simp
    from Suc.prems(1) ev consider "k = a" | "Request k \<in> set ?rest"
      by (auto split: if_splits)
    then show ?thesis
    proof cases
      case 1
      with Suc.prems have "a + 1 \<le> maxRetries c" "\<not> (0 < a + 1 \<and> cancelled (a + 1))" "0 < a + 1"
        by simp_all
      from fetch_loop_head [where cancelled = cancelled and a = "a + 1" and server = server and le = "Some e'", OF this(1,2)] this(3)
      obtain post where "?rest = BackoffSleep (backoff (a + 1)) # Request (a + 1) # post"
        by auto
      with ev 1 have "snd (fetch_loop c server cancelled a le) =
          ?slept @ [Request k, BackoffSleep (backoff (k + 1)), Request (k + 1)] @ post"
        by simp
      then show ?thesis by blast
    next
      case 2
      from Suc.hyps(1) [OF n 2 Suc.prems(2-6)] obtain pre post where
        "?rest = pre @ [Request k, BackoffSleep (backoff (k + 1)), Request (k + 1)] @ post"
        by blast
      with ev have "snd (fetch_loop c server cancelled a le) =
          (?slept @ [Request a] @ pre) @ [Request k, BackoffSleep (backoff (k + 1)), Request (k + 1)] @ post"
        by simp
      then show ?thesis by blast
    qed
  qed
qed

lemma sint_of_int64:
  "- (2 ^ 63) \<le> x \<Longrightarrow> x < 2 ^ 63 \<Longrightarrow> sint (word_of_int x :: 64 word) = x"
  by (simp add: sint_sbintrunc' signed_take_bit_int_eq_self)

lemma backoff_seconds:
  assumes "0 \<le> k" "k \<le> 33"
  shows "backoff (k + 1) = 2 ^ nat k * 1000000000"
proof -
  define m where "m = nat k"
  have m: "m \<le> 33" using assms by (simp add: m_def)
  have "(2::int) ^ m \<le> 2 ^ 33" using m by (intro power_increasing) simp_all
  then have b: "(2::int) ^ m * 1000000000 < 2 ^ 63" by simp
  have "push_bit m (1 :: 64 word) * 1000000000 = word_of_int (2 ^ m * 1000000000)"
    by (simp add: push_bit_eq_mult)
  moreover have "- (2 ^ 63) \<le> (2::int) ^ m * 1000000000"
    by (rule order_trans [of _ 0]) simp_all
  then have "sint (word_of_int (2 ^ m * 1000000000) :: 64 word) = 2 ^ m * 1000000000"
    using b by (rule sint_of_int64)
  ultimately show ?thesis using assms by (simp add: backoff_def m_def)
qed


lemma fetch_unfold:
  "fetch c now server cancelled =
     (fst (fetch_loop (fst (waitForRateLimit c now)) server cancelled 0 None),
      fst (waitForRateLimit c now),
      snd (waitForRateLimit c now)
        @ snd (fetch_loop (fst (waitForRateLimit c now)) server cancelled 0 None))"
  by (simp add: fetch_def split_beta Let_def)

lemma waitForRateLimit_maxRetries: "maxRetries (fst (waitForRateLimit c now)) = maxRetries c"
  by (simp add: waitForRateLimit_def Let_def)

lemma waitForRateLimit_events:
  "Request k \<notin> set (snd (waitForRateLimit c now))"
  "attempts (snd (waitForRateLimit c now)) = 0"
  by (simp_all add: waitForRateLimit_def Let_def attempts_def)

lemma waitForRateLimit_no_request:
  "filter is_Request (snd (waitForRateLimit c now)) = []"
  by (simp add: waitForRateLimit_def Let_def)

text \<open>
  Claim C3 (as amended). For a fetch with \<open>maxRetries = N\<close>: the number of HTTP attempts is
  at most \<open>N + 1\<close>; attempts are numbered \<open>0..N\<close>; after an attempt \<open>k < N\<close> that fails with
  an error other than not-found, the client sleeps \<open>backoff (k + 1)\<close> and sends attempt
  \<open>k + 1\<close>, unless the context is cancelled during that sleep, in which case the fetch ends
  with the context's error and no further request; the backoff before attempt \<open>k + 1\<close> is
  \<open>2 ^ k\<close> seconds for \<open>k\<close> up to 33; an attempt answered not-found ends the fetch with the
  not-found error and no further request; 404 and a 200 whose body is
  \<open>No GP data found\<close> are not-found; 5xx, 429 and a network error are errors other than
  not-found.
\<close>

theorem fetch_retry_policy:
  assumes "fetch c now server cancelled = (res, c', trace)"
  shows "attempts trace \<le> nat (maxRetries c + 1)
   \<and> (\<forall>k. Request k \<in> set trace \<longrightarrow> 0 \<le> k \<and> k \<le> maxRetries c)
   \<and> (\<forall>k e. Request k \<in> set trace \<and> doRequest (server k) = Inl e
          \<and> e \<noteq> Err ErrCelestrakNotFound \<and> k < maxRetries c \<longrightarrow>
        (if cancelled (k + 1)
         then res = Inl (Err ErrContext) \<and> (\<forall>j > k. Request j \<notin> set trace)
         else (\<exists>pre post. trace =
                 pre @ [Request k, BackoffSleep (backoff (k + 1)), Request (k + 1)] @ post)))
   \<and> (\<forall>k. 0 \<le> k \<and> k \<le> 33 \<longrightarrow> backoff (k + 1) = 2 ^ nat k * 1000000000)
   \<and> (\<forall>k. Request k \<in> set trace \<and> doRequest (server k) = Inl (Err ErrCelestrakNotFound) \<longrightarrow>
        res = Inl (Err ErrCelestrakNotFound) \<and> (\<forall>j > k. Request j \<notin> set trace))
   \<and> (\<forall>body. doRequest (Response 404 body) = Inl (Err ErrCelestrakNotFound))
   \<and> doRequest (Response 200 (Some ''No GP data found'')) = Inl (Err ErrCelestrakNotFound)
   \<and> (\<forall>status body. status \<ge> 500 \<or> status = 429 \<longrightarrow>
        (\<exists>e. doRequest (Response status body) = Inl e \<and> e \<noteq> Err ErrCelestrakNotFound))
   \<and> (\<exists>e. doRequest DoError = Inl e \<and> e \<noteq> Err ErrCelestrakNotFound)"
proof -
  define c1 where "c1 = fst (waitForRateLimit c now)"
  define w where "w = snd (waitForRateLimit c now)"
  define evs where "evs = snd (fetch_loop c1 server cancelled 0 None)"
  have N: "maxRetries c1 = maxRetries c" by (simp add: c1_def waitForRateLimit_maxRetries)
  from assms have res: "res = fst (fetch_loop c1 server cancelled 0 None)"
    and trace: "trace = w @ evs"
    unfolding fetch_unfold c1_def w_def evs_def by auto
  have wr: "\<And>k. Request k \<notin> set w" and wa: "attempts w = 0"
    by (simp_all add: w_def waitForRateLimit_events)
  have mem: "\<And>k. Request k \<in> set trace \<longleftrightarrow> Request k \<in> set evs"
    using wr by (simp add: trace)
  have p1: "attempts trace \<le> nat (maxRetries c + 1)"
    using fetch_loop_attempts [of c1 server cancelled 0 None]
    by (simp add: trace attempts_append wa evs_def N)
  have p2: "\<forall>k. Request k \<in> set trace \<longrightarrow> 0 \<le> k \<and> k \<le> maxRetries c"
    using fetch_loop_range [of _ c1 server cancelled 0 None] by (simp add: mem evs_def N)
  have p3: "\<forall>k e. Request k \<in> set trace \<and> doRequest (server k) = Inl e
          \<and> e \<noteq> Err ErrCelestrakNotFound \<and> k < maxRetries c \<longrightarrow>
        (if cancelled (k + 1)
         then res = Inl (Err ErrContext) \<and> (\<forall>j > k. Request j \<notin> set trace)
         else (\<exists>pre post. trace =
                 pre @ [Request k, BackoffSleep (backoff (k + 1)), Request (k + 1)] @ post))"
  proof (intro allI impI)
    fix k e
    assume a: "Request k \<in> set trace \<and> doRequest (server k) = Inl e
          \<and> e \<noteq> Err ErrCelestrakNotFound \<and> k < maxRetries c"
    then have k: "Request k \<in> set (snd (fetch_loop c1 server cancelled 0 None))"
      and d: "doRequest (server k) = Inl e" and e: "e \<noteq> Err ErrCelestrakNotFound"
      and kN: "k < maxRetries c1"
      by (simp_all add: mem evs_def N)
    from p2 a have k0: "0 \<le> k" by simp
    show "if cancelled (k + 1)
         then res = Inl (Err ErrContext) \<and> (\<forall>j > k. Request j \<notin> set trace)
         else (\<exists>pre post. trace =
                 pre @ [Request k, BackoffSleep (backoff (k + 1)), Request (k + 1)] @ post)"
    proof (cases "cancelled (k + 1)")
      case True
      from fetch_loop_cancel_final [OF k d e kN k0 True] True show ?thesis
        by (simp add: res mem evs_def)
    next
      case False
      from fetch_loop_retries [OF k d e kN k0 False] obtain pre post where
        "evs = pre @ [Request k, BackoffSleep (backoff (k + 1)), Request (k + 1)] @ post"
        unfolding evs_def by blast
      then have "trace = (w @ pre) @ [Request k, BackoffSleep (backoff (k + 1)), Request (k + 1)] @ post"
        by (simp add: trace)
      with False show ?thesis by (simp only: if_False) blast
    qed
  qed
  have p4: "\<forall>k. 0 \<le> k \<and> k \<le> 33 \<longrightarrow> backoff (k + 1) = 2 ^ nat k * 1000000000"
    using backoff_seconds by blast
  have p5: "\<forall>k. Request k \<in> set trace \<and> doRequest (server k) = Inl (Err ErrCelestrakNotFound) \<longrightarrow>
        res = Inl (Err ErrCelestrakNotFound) \<and> (\<forall>j > k. Request j \<notin> set trace)"
    using fetch_loop_notfound_final [of _ c1 server cancelled 0 None]
    unfolding res mem evs_def by blast
  have p6: "\<forall>body. doRequest (Response 404 body) = Inl (Err ErrCelestrakNotFound)"
    by (simp add: doRequest_def)
  have p7: "doRequest (Response 200 (Some ''No GP data found'')) = Inl (Err ErrCelestrakNotFound)"
    by (simp add: doRequest_def)
  have p8: "\<forall>status body. status \<ge> 500 \<or> status = 429 \<longrightarrow>
        (\<exists>e. doRequest (Response status body) = Inl e \<and> e \<noteq> Err ErrCelestrakNotFound)"
    by (auto simp: doRequest_def)
  have p9: "\<exists>e. doRequest DoError = Inl e \<and> e \<noteq> Err ErrCelestrakNotFound"
    by (simp add: doRequest_def)
  from p1 p2 p3 p4 p5 p6 p7 p8 p9 show ?thesis by (intro conjI)
qed

lemma flaky_fetch:
  "fetch (test_client 3) 0 flaky_server never_cancelled =
     (Inr ''data'', test_client 3,
      [Request 0, BackoffSleep 1000000000, Request 1, BackoffSleep 2000000000, Request 2])"
  by (simp add: fetch_def waitForRateLimit_def test_client_def WithRateLimit_def WithMaxRetries_def
      NewCelestrakClient_def flaky_server_def never_cancelled_def doRequest_def Let_def
      fetch_loop.simps backoff_def)

theorem fetch_retry_policy_witness:
  "fetch (test_client 3) 0 flaky_server never_cancelled =
     (Inr ''data'', test_client 3,
      [Request 0, BackoffSleep 1000000000, Request 1, BackoffSleep 2000000000, Request 2])
   \<and> attempts [Request 0, BackoffSleep 1000000000, Request 1, BackoffSleep 2000000000, Request 2]
       \<le> nat (maxRetries (test_client 3) + 1)"
  using fetch_retry_policy [OF flaky_fetch] flaky_fetch by blast

text \<open>
  Claim C3 as stated fails: with \<open>max_retries = 3\<close> and a server that always answers 500,
  one fetch makes four HTTP attempts.
\<close>

theorem fetch_attempts_counterexample:
  "\<not> attempts (snd (snd (fetch (test_client 3) 0 always_500 never_cancelled))) \<le> 3"
  by (simp add: fetch_def waitForRateLimit_def test_client_def WithRateLimit_def WithMaxRetries_def
      NewCelestrakClient_def always_500_def never_cancelled_def doRequest_def Let_def
      fetch_loop.simps backoff_def attempts_def)

section \<open>Verified properties: propagator\<close>

lemma isNaN_iff: "isNaN f \<longleftrightarrow> f = NaN"
  by (simp add: isNaN_def fneq_def feq_def)

text \<open>
  Claim C1 (as amended). For a non-nil propagator, \<open>Propagate\<close> fails with the
  propagation-failed error exactly when a position component of the kernel's answer is
  NaN; otherwise it returns the kernel's six components unchanged, so no position
  component of a result is NaN.
\<close>

theorem Propagate_position_nan:
  assumes "sgp4 k (satellite p) (whole_second t) = ((px, py, pz), (vx, vy, vz))"
  shows "(if px = NaN \<or> py = NaN \<or> pz = NaN
          then \<exists>e. Propagate k (Some p) t = Inl e \<and> errors_Is e ErrPropagationFailed
          else Propagate k (Some p) t =
                 Inr \<lparr>ECIPosition.X = px, ECIPosition.Y = py, ECIPosition.Z = pz,
           Vx = vx, Vy = vy, Vz = vz, ECIPosition.Time = t\<rparr>)
       \<and> (\<forall>pos. Propagate k (Some p) t = Inr pos \<longrightarrow>
              ECIPosition.X pos \<noteq> NaN \<and> ECIPosition.Y pos \<noteq> NaN \<and> ECIPosition.Z pos \<noteq> NaN)"
  using assms by (auto simp: Propagate_def isNaN_iff)

theorem Propagate_position_nan_witness:
  "sgp4 steady_kernel (satellite unit_propagator) (whole_second 0) =
     ((Fin 6800, Fin 0, Fin 0), (Fin 0, Fin 7.5, Fin 0))
   \<and> Propagate steady_kernel (Some unit_propagator) 0 =
       Inr \<lparr>ECIPosition.X = Fin 6800, ECIPosition.Y = Fin 0, ECIPosition.Z = Fin 0,
           Vx = Fin 0, Vy = Fin 7.5, Vz = Fin 0, ECIPosition.Time = 0\<rparr>"
proof -
  have h: "sgp4 steady_kernel (satellite unit_propagator) (whole_second 0) =
     ((Fin 6800, Fin 0, Fin 0), (Fin 0, Fin 7.5, Fin 0))"
    by (simp add: steady_kernel_def)
  from Propagate_position_nan [OF h] h show ?thesis by simp
qed

text \<open>
  Claim C1 as stated fails: a kernel answer with a finite position and a NaN velocity, and
  one with an infinite position component, are returned as results.
\<close>

theorem Propagate_nonfinite_counterexample:
  "Propagate nan_velocity_kernel (Some unit_propagator) 0 =
     Inr \<lparr>ECIPosition.X = Fin 6800, ECIPosition.Y = Fin 0, ECIPosition.Z = Fin 0,
           Vx = NaN, Vy = NaN, Vz = NaN, ECIPosition.Time = 0\<rparr>
   \<and> Propagate inf_position_kernel (Some unit_propagator) 0 =
     Inr \<lparr>ECIPosition.X = PInf, ECIPosition.Y = Fin 0, ECIPosition.Z = Fin 0,
           Vx = Fin 0, Vy = Fin 7.5, Vz = Fin 0, ECIPosition.Time = 0\<rparr>
   \<and> \<not> is_finite NaN \<and> \<not> is_finite PInf"
  by (simp add: Propagate_def nan_velocity_kernel_def inf_position_kernel_def isNaN_iff)

section \<open>Verified properties: coordinate transforms\<close>












end
